theory Spec2Isabelle
  imports Main
begin

section \<open>The lease lock and replica synchronisation of core/db\_manager.py\<close>

text \<open>
  The development embeds the class \<open>DatabaseManager\<close> of \<^verbatim>\<open>src/core/db_manager.py\<close>:
  the lease lock kept as a blob in the bucket, the download and upload of the SQLite
  file, and \<open>with_session\<close>, which runs caller logic between them.

  What the Python leaves to its collaborators is made explicit:
  \<^item> the bucket is a map from blob names to contents (\<open>store\<close>);
  \<^item> every request to the bucket (\<open>exists\<close>, download, upload, delete) may raise and
    takes time: the environment says which request fails (\<open>fails\<close>) and how long each
    takes (\<open>dur\<close>), by the number of the request. A request that fails has no effect
    on the bucket, and no other process writes to the bucket during a call;
  \<^item> the clock (\<open>time.time()\<close>, \<open>datetime.utcnow()\<close>) is the field \<open>now\<close>, in
    seconds; only requests and \<open>time.sleep\<close> let it advance;
  \<^item> the lock file may hold any JSON value, or text that is no JSON;
  \<^item> \<open>initialize_db\<close> raises where the environment says so (\<open>init_fails\<close>); the
    session calls commit, rollback and close, and \<open>create_engine\<close>, are taken not to
    fail; exceptions are the subclasses of \<open>Exception\<close>;
  \<^item> the requests, the sleeps, the session calls and four of the console messages are
    recorded in \<open>trace\<close>, in the order the code performs them.
\<close>

subsection \<open>Data\<close>

text \<open>
  A JSON value, as \<open>json.loads\<close> returns it. \<open>JTime t\<close> is a string that
  \<open>datetime.fromisoformat\<close> reads as the naive time \<open>t\<close>, \<open>JStr\<close> any other string;
  \<open>JNum\<close> is a whole number, \<open>JFrac\<close> a number that is not whole; \<open>JObj\<close> is a
  dictionary, as an association list.
\<close>

datatype jval =
    JNull
  | JBool bool
  | JNum int
  | JFrac
  | JStr string
  | JTime int
  | JList "jval list"
  | JObj "(string \<times> jval) list"

type_synonym lock_info = "(string \<times> jval) list"

text \<open>Python's truth value of a JSON value.\<close>

fun truth :: "jval \<Rightarrow> bool" where
  "truth JNull = False"
| "truth (JBool b) = b"
| "truth (JNum n) = (n \<noteq> 0)"
| "truth JFrac = True"
| "truth (JStr x) = (x \<noteq> [])"
| "truth (JTime t) = True"
| "truth (JList xs) = (xs \<noteq> [])"
| "truth (JObj d) = (d \<noteq> [])"

text \<open>
  The content of a blob or of a local file: \<open>Json v\<close> is text that \<open>json.loads\<close>
  turns into the value \<open>v\<close>; \<open>Text\<close> is content that \<open>json.loads\<close> rejects (a
  database file is such).
\<close>

datatype blob = Text string | Json jval

datatype action = Exists | Download | Upload | Delete

datatype notice = NotOwner | UploadSkipped | UploadError | OperationError string

datatype event =
    Req action string bool
  | Sleep
  | Commit
  | Rollback
  | Close
  | ReleaseLock
  | Print notice

text \<open>The arguments of \<open>DatabaseManager.__init__\<close>; \<open>bucket\<close> says that \<open>self.bucket\<close> is set.\<close>

record config =
  bucket :: bool
  db_filename :: string
  local_path :: string
  lock_timeout :: int

text \<open>What the process is given from outside.\<close>

record env =
  fails :: "nat \<Rightarrow> bool"
  dur :: "nat \<Rightarrow> nat"
  uuid8 :: "nat \<Rightarrow> string"
  hostname :: string
  pid :: nat
  strftime :: "int \<Rightarrow> string"
  fresh_db :: blob
  create_all :: "blob \<Rightarrow> blob"
  init_fails :: "blob option \<Rightarrow> bool"

record state =
  store :: "string \<Rightarrow> blob option"
  now :: int
  ops :: nat
  lock_id :: "string option"
  engine :: bool
  localfile :: "blob option"
  trace :: "event list"

text \<open>The SQLAlchemy session: the content of the file and the content the session sees.\<close>

record session =
  committed :: "blob option"
  working :: "blob option"

datatype lock_error = TimedOut int | AttemptsExceeded nat jval

text \<open>
  What a call can raise: the lock exception, Python's \<open>TypeError\<close> and
  \<open>AttributeError\<close>, the error of \<open>initialize_db\<close>, and what the transform raises.
\<close>

datatype error =
    DatabaseLockException lock_error
  | TypeError
  | AttributeError
  | DatabaseError
  | Raised string

datatype deleted = Deleted | NotFound | DeleteError

definition MAX_LOCK_AGE :: int where
  "MAX_LOCK_AGE = 300"

definition LOCK_RETRY_ATTEMPTS :: nat where
  "LOCK_RETRY_ATTEMPTS = 5"

definition LOCK_RETRY_DELAY :: int where
  "LOCK_RETRY_DELAY = 2"

subsection \<open>Requests to the bucket\<close>

definition request :: "env \<Rightarrow> action \<Rightarrow> string \<Rightarrow> state \<Rightarrow> bool \<times> state" where
  "request e a k s =
     (let ok = \<not> fails e (ops s) in
      (ok, s\<lparr>now := now s + int (dur e (ops s)), ops := Suc (ops s),
              trace := trace s @ [Req a k ok]\<rparr>))"

text \<open>\<open>blob.exists()\<close>: \<open>None\<close> when the request raises.\<close>

definition blob_exists :: "env \<Rightarrow> string \<Rightarrow> state \<Rightarrow> bool option \<times> state" where
  "blob_exists e k s =
     (let (ok, s1) = request e Exists k s in
      if ok then (Some (store s1 k \<noteq> None), s1) else (None, s1))"

text \<open>\<open>blob.download_as_text()\<close>: \<open>None\<close> when the request raises or the blob is gone.\<close>

definition download_as_text :: "env \<Rightarrow> string \<Rightarrow> state \<Rightarrow> blob option \<times> state" where
  "download_as_text e k s =
     (let (ok, s1) = request e Download k s in
      if ok then (store s1 k, s1) else (None, s1))"

text \<open>\<open>blob.upload_from_string\<close> and \<open>blob.upload_from_filename\<close>: \<open>False\<close> when the request raises.\<close>

definition upload :: "env \<Rightarrow> string \<Rightarrow> blob \<Rightarrow> state \<Rightarrow> bool \<times> state" where
  "upload e k b s =
     (let (ok, s1) = request e Upload k s in
      if ok then (True, s1\<lparr>store := (store s1)(k \<mapsto> b)\<rparr>) else (False, s1))"

text \<open>\<open>blob.delete()\<close>: raises \<open>NotFound\<close> when there is no such blob.\<close>

definition delete :: "env \<Rightarrow> string \<Rightarrow> state \<Rightarrow> deleted \<times> state" where
  "delete e k s =
     (let (ok, s1) = request e Delete k s in
      if \<not> ok then (DeleteError, s1)
      else if store s1 k = None then (NotFound, s1)
      else (Deleted, s1\<lparr>store := (store s1)(k := None)\<rparr>))"

subsection \<open>The lease\<close>

text \<open>The decimal digits of the pid, as the f-string of \<open>_generate_lock_id\<close> prints it.\<close>

fun str_nat :: "nat \<Rightarrow> string" where
  "str_nat n =
     (if n < 10 then [char_of (48 + n)]
      else str_nat (n div 10) @ [char_of (48 + n mod 10)])"

declare str_nat.simps [simp del]

definition generate_lock_id :: "env \<Rightarrow> state \<Rightarrow> string" where
  "generate_lock_id e s =
     hostname e @ ''-'' @ str_nat (pid e) @ ''-'' @ uuid8 e (ops s) @ ''-'' @ strftime e (now s)"

definition get_lock_blob_name :: "config \<Rightarrow> string" where
  "get_lock_blob_name c = db_filename c @ ''.lock''"

definition lock_exists :: "env \<Rightarrow> config \<Rightarrow> state \<Rightarrow> bool \<times> state" where
  "lock_exists e c s =
     (if \<not> bucket c then (False, s)
      else case blob_exists e (get_lock_blob_name c) s of
             (None, s1) \<Rightarrow> (False, s1)
           | (Some b, s1) \<Rightarrow> (b, s1))"

text \<open>
  \<open>_get_lock_info\<close>: whatever \<open>json.loads\<close> makes of the lock file, and the empty
  dictionary when there is no bucket or no file, or when reading or parsing raises.
\<close>

definition get_lock_info :: "env \<Rightarrow> config \<Rightarrow> state \<Rightarrow> jval \<times> state" where
  "get_lock_info e c s =
     (if \<not> bucket c then (JObj [], s)
      else case blob_exists e (get_lock_blob_name c) s of
             (None, s1) \<Rightarrow> (JObj [], s1)
           | (Some False, s1) \<Rightarrow> (JObj [], s1)
           | (Some True, s1) \<Rightarrow>
               (case download_as_text e (get_lock_blob_name c) s1 of
                  (Some (Json v), s2) \<Rightarrow> (v, s2)
                | (Some (Text t), s2) \<Rightarrow> (JObj [], s2)
                | (None, s2) \<Rightarrow> (JObj [], s2)))"

text \<open>
  \<open>_is_lock_expired\<close>, at the time \<open>t\<close> that \<open>datetime.utcnow()\<close> returns. The test
  \<open>not lock_info or "timestamp" not in lock_info\<close> stands before the \<open>try\<close>: on a
  number or a boolean that is true, \<open>in\<close> raises \<open>TypeError\<close>, which leaves the
  function. On a list or a string the test may pass; then \<open>lock_info["timestamp"]\<close>
  raises inside the \<open>try\<close>, as \<open>fromisoformat\<close> does on a value that is no ISO time,
  and the \<open>except\<close> returns \<open>True\<close>.
\<close>

definition is_lock_expired :: "config \<Rightarrow> jval \<Rightarrow> int \<Rightarrow> error + bool" where
  "is_lock_expired c v t =
     (if \<not> truth v then Inr True
      else case v of
             JObj d \<Rightarrow>
               (case map_of d ''timestamp'' of
                  None \<Rightarrow> Inr True
                | Some (JTime lock_time) \<Rightarrow> Inr (t - lock_time > lock_timeout c)
                | Some x \<Rightarrow> Inr True)
           | JList xs \<Rightarrow> Inr True
           | JStr x \<Rightarrow> Inr True
           | JTime u \<Rightarrow> Inr True
           | x \<Rightarrow> Inl TypeError)"

definition create_lock :: "env \<Rightarrow> config \<Rightarrow> state \<Rightarrow> bool \<times> state" where
  "create_lock e c s =
     (if \<not> bucket c then (True, s)
      else
        let i = generate_lock_id e s;
            s1 = s\<lparr>lock_id := Some i\<rparr>;
            d = [(''lock_id'', JStr i), (''timestamp'', JTime (now s1)),
                 (''hostname'', JStr (hostname e)), (''pid'', JNum (int (pid e)))];
            (ok, s2) = upload e (get_lock_blob_name c) (Json (JObj d)) s1
        in if ok then (True, s2) else (False, s2\<lparr>lock_id := None\<rparr>))"

text \<open>Python's truth value of \<open>self.lock_id\<close>: \<open>None\<close> and the empty string are false.\<close>

definition truthy :: "string option \<Rightarrow> bool" where
  "truthy i = (i \<noteq> None \<and> i \<noteq> Some [])"

text \<open>
  \<open>_release_lock\<close> of the source. On lock information that is no dictionary,
  \<open>.get\<close> raises \<open>AttributeError\<close> inside the \<open>try\<close>, and the last \<open>except\<close>
  answers \<open>False\<close>.
\<close>

definition priv_release_lock :: "env \<Rightarrow> config \<Rightarrow> state \<Rightarrow> bool \<times> state" where
  "priv_release_lock e c s =
     (if \<not> bucket c \<or> \<not> truthy (lock_id s) then (True, s\<lparr>lock_id := None\<rparr>)
      else
        case get_lock_info e c s of
          (JObj d, s1) \<Rightarrow>
            if map_of d ''lock_id'' \<noteq> map_option JStr (lock_id s1)
            then (False, s1\<lparr>lock_id := None, trace := trace s1 @ [Print NotOwner]\<rparr>)
            else (case delete e (get_lock_blob_name c) s1 of
                    (Deleted, s2) \<Rightarrow> (True, s2\<lparr>lock_id := None\<rparr>)
                  | (NotFound, s2) \<Rightarrow> (True, s2\<lparr>lock_id := None\<rparr>)
                  | (DeleteError, s2) \<Rightarrow> (False, s2\<lparr>lock_id := None\<rparr>))
        | (x, s1) \<Rightarrow> (False, s1\<lparr>lock_id := None\<rparr>))"

definition force_release_lock :: "env \<Rightarrow> config \<Rightarrow> state \<Rightarrow> bool \<times> state" where
  "force_release_lock e c s =
     (if \<not> bucket c then (True, s)
      else case blob_exists e (get_lock_blob_name c) s of
             (None, s1) \<Rightarrow> (False, s1)
           | (Some False, s1) \<Rightarrow> (True, s1)
           | (Some True, s1) \<Rightarrow>
               (case delete e (get_lock_blob_name c) s1 of
                  (Deleted, s2) \<Rightarrow> (True, s2)
                | (_, s2) \<Rightarrow> (False, s2)))"

definition sleep :: "int \<Rightarrow> state \<Rightarrow> state" where
  "sleep d s = s\<lparr>now := now s + d, trace := trace s @ [Sleep]\<rparr>"

text \<open>
  One pass through the body of the \<open>while True\<close> loop of \<open>acquire_lock\<close>, from the
  test of \<open>_lock_exists()\<close> to the point where the loop either has returned \<open>True\<close> or
  goes on to count the attempt; \<open>Inl\<close> when \<open>_is_lock_expired\<close> raises.
\<close>

definition acquire_attempt :: "env \<Rightarrow> config \<Rightarrow> state \<Rightarrow> (error + bool) \<times> state" where
  "acquire_attempt e c s =
     (let (ex, s1) = lock_exists e c s in
      if \<not> ex then (let (ok, s2) = create_lock e c s1 in (Inr ok, s2))
      else
        let (v, s2) = get_lock_info e c s1 in
        case is_lock_expired c v (now s2) of
          Inl err \<Rightarrow> (Inl err, s2)
        | Inr True \<Rightarrow>
            (let (ok, s3) = create_lock e c (snd (force_release_lock e c s2)) in (Inr ok, s3))
        | Inr False \<Rightarrow> (Inr False, s2))"

text \<open>The owner named in the message: \<open>.get("lock_id", "unknown")\<close> on a dictionary.\<close>

definition owner_of :: "lock_info \<Rightarrow> jval" where
  "owner_of d = (case map_of d ''lock_id'' of None \<Rightarrow> JStr ''unknown'' | Some v \<Rightarrow> v)"

text \<open>
  The loop of \<open>acquire_lock\<close>. When the attempts are used up, \<open>.get\<close> is called on
  what \<open>_get_lock_info()\<close> returns, outside any \<open>try\<close>: on a value that is no
  dictionary it raises \<open>AttributeError\<close>.
\<close>

function acquire_loop ::
  "env \<Rightarrow> config \<Rightarrow> int \<Rightarrow> int \<Rightarrow> nat \<Rightarrow> state \<Rightarrow> (error + bool) \<times> state" where
  "acquire_loop e c timeout start_time attempt s =
     (if now s - start_time > timeout
      then (Inl (DatabaseLockException (TimedOut timeout)), s)
      else
        case acquire_attempt e c s of
          (Inl err, s1) \<Rightarrow> (Inl err, s1)
        | (Inr True, s1) \<Rightarrow> (Inr True, s1)
        | (Inr False, s1) \<Rightarrow>
            if Suc attempt > LOCK_RETRY_ATTEMPTS
            then (case get_lock_info e c s1 of
                    (JObj d, s2) \<Rightarrow>
                      (Inl (DatabaseLockException
                              (AttemptsExceeded (Suc attempt) (owner_of d))), s2)
                  | (x, s2) \<Rightarrow> (Inl AttributeError, s2))
            else acquire_loop e c timeout start_time (Suc attempt) (sleep LOCK_RETRY_DELAY s1))"
  by pat_completeness auto
termination
  by (relation "measure (\<lambda>(e, c, timeout, start_time, attempt, s). Suc LOCK_RETRY_ATTEMPTS - attempt)") auto

declare acquire_loop.simps [simp del]

definition acquire_lock :: "env \<Rightarrow> config \<Rightarrow> int \<Rightarrow> state \<Rightarrow> (error + bool) \<times> state" where
  "acquire_lock e c timeout s =
     (if \<not> bucket c then (Inr True, s)
      else acquire_loop e c timeout (now s) 0 s)"

definition release_lock :: "env \<Rightarrow> config \<Rightarrow> state \<Rightarrow> state" where
  "release_lock e c s = (if truthy (lock_id s) then snd (priv_release_lock e c s) else s)"

subsection \<open>The local replica\<close>

text \<open>
  \<open>initialize_db\<close> of core/models.py opens the file at \<open>local_path\<close>, creating it when
  there is none, creates the tables that are missing and adds the first persona when no
  persona is active: \<open>fresh_db\<close> is the file it makes from nothing, \<open>create_all\<close> what
  it makes of a file that is there. It raises where \<open>init_fails\<close> says so, by the file
  it finds (none, or one that is no database), and then leaves the file and the engine
  as they are. \<open>False\<close> when it raises.
\<close>

definition initialize_db :: "env \<Rightarrow> state \<Rightarrow> bool \<times> state" where
  "initialize_db e s =
     (if init_fails e (localfile s) then (False, s)
      else
        (True,
         s\<lparr>engine := True,
           localfile :=
             Some (case localfile s of None \<Rightarrow> fresh_db e | Some b \<Rightarrow> create_all e b)\<rparr>))"

text \<open>
  \<open>blob.download_to_filename\<close> of the client library: it opens \<open>local_path\<close> for
  writing, which empties the file, before it sends the request; when the request fails
  the empty file stays, and when the blob is gone (\<open>NotFound\<close>) the file is removed.
  \<open>False\<close> when it raises.
\<close>

definition download_to_filename :: "env \<Rightarrow> string \<Rightarrow> state \<Rightarrow> bool \<times> state" where
  "download_to_filename e k s =
     (let (ok, s1) = request e Download k (s\<lparr>localfile := Some (Text [])\<rparr>) in
      if \<not> ok then (False, s1)
      else case store s1 k of
             None \<Rightarrow> (False, s1\<lparr>localfile := None\<rparr>)
           | Some b \<Rightarrow> (True, s1\<lparr>localfile := Some b\<rparr>))"

text \<open>
  The \<open>except\<close> branch of \<open>download_db\<close>: \<open>initialize_db\<close> runs when no file is at
  \<open>local_path\<close>, outside any \<open>try\<close>.
\<close>

definition download_db_except :: "env \<Rightarrow> config \<Rightarrow> state \<Rightarrow> (error + string) \<times> state" where
  "download_db_except e c s =
     (if localfile s = None
      then (case initialize_db e s of
              (True, s1) \<Rightarrow> (Inr (local_path c), s1)
            | (False, s1) \<Rightarrow> (Inl DatabaseError, s1))
      else (Inr (local_path c), s))"

definition download_db :: "env \<Rightarrow> config \<Rightarrow> state \<Rightarrow> (error + string) \<times> state" where
  "download_db e c s =
     (if bucket c then
        (case blob_exists e (db_filename c) s of
           (Some True, s1) \<Rightarrow>
             (case download_to_filename e (db_filename c) s1 of
                (True, s2) \<Rightarrow> (Inr (local_path c), s2)
              | (False, s2) \<Rightarrow> download_db_except e c s2)
         | (Some False, s1) \<Rightarrow>
             (case initialize_db e s1 of
                (True, s2) \<Rightarrow> (Inr (local_path c), s2)
              | (False, s2) \<Rightarrow> download_db_except e c s2)
         | (None, s1) \<Rightarrow> download_db_except e c s1)
      else if localfile s = None
      then (case initialize_db e s of
              (True, s1) \<Rightarrow> (Inr (local_path c), s1)
            | (False, s1) \<Rightarrow> (Inl DatabaseError, s1))
      else (Inr (local_path c), s))"

definition backup_name :: "env \<Rightarrow> config \<Rightarrow> state \<Rightarrow> string" where
  "backup_name e c s = ''backups/'' @ db_filename c @ ''.'' @ strftime e (now s)"

text \<open>
  \<open>upload_db\<close>. With no file at \<open>local_path\<close>, \<open>upload_from_filename\<close> raises before
  it sends anything.
\<close>

definition upload_db :: "env \<Rightarrow> config \<Rightarrow> state \<Rightarrow> state" where
  "upload_db e c s =
     (if \<not> bucket c then s\<lparr>trace := trace s @ [Print UploadSkipped]\<rparr>
      else case localfile s of
             None \<Rightarrow> s\<lparr>trace := trace s @ [Print UploadError]\<rparr>
           | Some b \<Rightarrow>
               (case upload e (db_filename c) b s of
                  (False, s1) \<Rightarrow> s1\<lparr>trace := trace s1 @ [Print UploadError]\<rparr>
                | (True, s1) \<Rightarrow>
                    (case upload e (backup_name e c s1) b s1 of
                       (False, s2) \<Rightarrow> s2\<lparr>trace := trace s2 @ [Print UploadError]\<rparr>
                     | (True, s2) \<Rightarrow> s2)))"

definition get_session :: "env \<Rightarrow> config \<Rightarrow> state \<Rightarrow> (error + session) \<times> state" where
  "get_session e c s =
     (if \<not> engine s
      then (case download_db e c s of
              (Inl err, s1) \<Rightarrow> (Inl err, s1)
            | (Inr p, s1) \<Rightarrow>
                (Inr \<lparr>committed = localfile s1, working = localfile s1\<rparr>, s1\<lparr>engine := True\<rparr>))
      else (Inr \<lparr>committed = localfile s, working = localfile s\<rparr>, s))"

subsection \<open>The transaction\<close>

text \<open>
  \<open>func\<close> is the caller's logic: from the session it is given to what it returns or
  raises, and the session as it leaves it.

  The inner \<open>try\<close> of \<open>with_session\<close>: the transform, then commit and upload, or
  rollback; the session is closed at the end.
\<close>

definition run_transform ::
  "env \<Rightarrow> config \<Rightarrow> (session \<Rightarrow> (string + 'r) \<times> session) \<Rightarrow> session \<Rightarrow> state
     \<Rightarrow> (error + 'r) \<times> state" where
  "run_transform e c func sess s =
     (let (r, s1) =
        (case func sess of
           (Inr result, sess1) \<Rightarrow>
             (Inr result,
              upload_db e c (s\<lparr>localfile := working sess1, trace := trace s @ [Commit]\<rparr>))
         | (Inl x, sess1) \<Rightarrow>
             (Inl (Raised x),
              s\<lparr>localfile := committed sess1,
                trace := trace s @ [Rollback, Print (OperationError x)]\<rparr>))
      in (r, s1\<lparr>trace := trace s1 @ [Close]\<rparr>))"

definition with_session ::
  "env \<Rightarrow> config \<Rightarrow> (session \<Rightarrow> (string + 'r) \<times> session) \<Rightarrow> state \<Rightarrow> (error + 'r) \<times> state" where
  "with_session e c func s =
     (case acquire_lock e c 60 s of
        (Inl err, s1) \<Rightarrow> (Inl err, s1)
      | (Inr _, s1) \<Rightarrow>
          let (r, s4) =
            (case download_db e c s1 of
               (Inl err, s2) \<Rightarrow> (Inl err, s2)
             | (Inr _, s2) \<Rightarrow>
                 (case get_session e c s2 of
                    (Inl err, s3) \<Rightarrow> (Inl err, s3)
                  | (Inr sess, s3) \<Rightarrow> run_transform e c func sess s3))
          in (r, release_lock e c (s4\<lparr>trace := trace s4 @ [ReleaseLock]\<rparr>)))"

text \<open>
  The session \<open>with_session\<close> hands to \<open>func\<close>, and the state at that moment, when the
  lock has been acquired; \<open>Inl\<close> when \<open>download_db\<close> raises before.
\<close>

definition opened_session :: "env \<Rightarrow> config \<Rightarrow> state \<Rightarrow> (error + session) \<times> state" where
  "opened_session e c s =
     (case download_db e c (snd (acquire_lock e c 60 s)) of
        (Inl err, s2) \<Rightarrow> (Inl err, s2)
      | (Inr _, s2) \<Rightarrow> get_session e c s2)"

subsection \<open>Reading the trace\<close>

text \<open>The events a run has added to the trace.\<close>

definition added :: "state \<Rightarrow> state \<Rightarrow> event list" where
  "added s s' = drop (length (trace s)) (trace s')"

text \<open>The events of the lock: requests on the lock file, the waits, the ownership warning.\<close>

fun lock_event :: "config \<Rightarrow> event \<Rightarrow> bool" where
  "lock_event c (Req a k ok) = (k = get_lock_blob_name c)"
| "lock_event c Sleep = True"
| "lock_event c (Print n) = (n = NotOwner)"
| "lock_event c ev = False"

text \<open>The events of a download: the database blob is looked for and read.\<close>

fun fetch_event :: "config \<Rightarrow> event \<Rightarrow> bool" where
  "fetch_event c (Req a k ok) = (k = db_filename c \<and> (a = Exists \<or> a = Download))"
| "fetch_event c ev = False"

text \<open>The names of the blobs that a list of events writes, or tries to write.\<close>

fun written :: "event \<Rightarrow> string list" where
  "written (Req Upload k ok) = [k]"
| "written ev = []"

definition writes :: "event list \<Rightarrow> string list" where
  "writes evs = concat (map written evs)"

text \<open>
  What the operations of the lock leave alone: the blobs other than the lock file, the
  local file and the engine; they add events of the lock only.
\<close>

definition lock_step :: "config \<Rightarrow> state \<Rightarrow> state \<Rightarrow> bool" where
  "lock_step c s s' \<longleftrightarrow>
     (\<forall>k. k \<noteq> get_lock_blob_name c \<longrightarrow> store s' k = store s k) \<and>
     localfile s' = localfile s \<and> engine s' = engine s \<and> now s \<le> now s' \<and>
     (\<exists>evs. trace s' = trace s @ evs \<and> list_all (lock_event c) evs)"

text \<open>
  The process holds the lease: it has a \<open>lock_id\<close>, and the lock file is a lease that
  carries it.
\<close>

definition holds_lease :: "config \<Rightarrow> state \<Rightarrow> bool" where
  "holds_lease c s \<longleftrightarrow>
     truthy (lock_id s) \<and>
     (case store s (get_lock_blob_name c) of
        Some (Json (JObj d)) \<Rightarrow> map_of d ''lock_id'' = map_option JStr (lock_id s)
      | _ \<Rightarrow> False)"

text \<open>What a download leaves alone: the bucket and the lock.\<close>

definition fetch_step :: "config \<Rightarrow> state \<Rightarrow> state \<Rightarrow> bool" where
  "fetch_step c s s' \<longleftrightarrow>
     store s' = store s \<and> lock_id s' = lock_id s \<and>
     (\<exists>evs. trace s' = trace s @ evs \<and> list_all (fetch_event c) evs)"

subsection \<open>Concrete runs\<close>

text \<open>
  A manager for the bucket of the functions (\<open>lifegoal.db\<close>, leases of 300 seconds), a
  process on host \<open>h\<close> with pid 7, and an environment whose requests take no time and
  fail exactly at the numbers listed.
\<close>

definition ex_config :: config where
  "ex_config =
     \<lparr>bucket = True, db_filename = ''lifegoal.db'', local_path = ''/tmp/lifegoal.db'',
      lock_timeout = MAX_LOCK_AGE\<rparr>"

definition ex_env :: "nat list \<Rightarrow> env" where
  "ex_env failing =
     \<lparr>fails = (\<lambda>n. List.member failing n), dur = (\<lambda>n. 0), uuid8 = (\<lambda>n. ''abcd1234''),
      hostname = ''h'', pid = 7, strftime = (\<lambda>t. ''20240101000000''),
      fresh_db = Text ''schema'', create_all = (\<lambda>b. b), init_fails = (\<lambda>f. False)\<rparr>"

text \<open>A process that has just started, in front of an empty bucket.\<close>

definition ex_state :: state where
  "ex_state =
     \<lparr>store = Map.empty, now = 0, ops = 0, lock_id = None, engine = False,
      localfile = None, trace = []\<rparr>"

text \<open>The same process with a database file at \<open>local_path\<close>.\<close>

definition ex_replica :: state where
  "ex_replica = ex_state\<lparr>localfile := Some (Text ''schema, row'')\<rparr>"

text \<open>The bucket holds a database, and another file is at \<open>local_path\<close>.\<close>

definition ex_both :: state where
  "ex_both = ex_replica\<lparr>store := [''lifegoal.db'' \<mapsto> Text ''schema, other row'']\<rparr>"

text \<open>An environment in which \<open>initialize_db\<close> always raises.\<close>

definition ex_env_no_init :: env where
  "ex_env_no_init = (ex_env [])\<lparr>init_fails := (\<lambda>f. True)\<rparr>"

text \<open>The name of the lock file, and the lock id that the process makes.\<close>

definition ex_lock :: string where
  "ex_lock = ''lifegoal.db.lock''"

definition ex_id :: string where
  "ex_id = ''h-7-abcd1234-20240101000000''"

text \<open>The lease of another process, written at time \<open>t\<close>.\<close>

definition ex_lease_info :: "int \<Rightarrow> lock_info" where
  "ex_lease_info t =
     [(''lock_id'', JStr ''other-1-ffff0000-20231231235959''), (''timestamp'', JTime t),
      (''hostname'', JStr ''other''), (''pid'', JNum 1)]"

definition ex_lease :: "int \<Rightarrow> blob" where
  "ex_lease t = Json (JObj (ex_lease_info t))"

text \<open>
  The process believes it holds the lock, and the lock file is the lease of another
  process.
\<close>

definition ex_overtaken :: state where
  "ex_overtaken = ex_state\<lparr>store := [ex_lock \<mapsto> ex_lease 0], lock_id := Some ex_id\<rparr>"

text \<open>The bucket holds a database.\<close>

definition ex_bucket :: state where
  "ex_bucket = ex_state\<lparr>store := [''lifegoal.db'' \<mapsto> Text ''schema'']\<rparr>"

text \<open>At time 0 the lock file is a lease written at time 0 by another process.\<close>

definition ex_held :: state where
  "ex_held = ex_state\<lparr>store := [ex_lock \<mapsto> ex_lease 0]\<rparr>"




text \<open>The session on a local file that is a copy of that database.\<close>

definition ex_session :: session where
  "ex_session = \<lparr>committed = Some (Text ''schema''), working = Some (Text ''schema'')\<rparr>"

text \<open>A transform that adds a row and returns 1, and one that raises.\<close>

definition ex_add_row :: "session \<Rightarrow> (string + nat) \<times> session" where
  "ex_add_row x = (Inr 1, x\<lparr>working := Some (Text ''schema, row'')\<rparr>)"

definition ex_raise :: "session \<Rightarrow> (string + nat) \<times> session" where
  "ex_raise x = (Inl ''ValueError'', x\<lparr>working := Some (Text ''schema, half a row'')\<rparr>)"

section \<open>Properties\<close>

subsection \<open>What each operation leaves alone\<close>

lemma added_same [simp]: "added s s = []"
  by (simp add: added_def)

lemma writes_append [simp]: "writes (xs @ ys) = writes xs @ writes ys"
  by (simp add: writes_def)

lemma writes_Nil [simp]: "writes [] = []"
  by (simp add: writes_def)

lemma writes_Cons [simp]: "writes (x # xs) = written x @ writes xs"
  by (simp add: writes_def)

lemma lock_step_refl [simp]: "lock_step c s s"
  by (simp add: lock_step_def)

lemma lock_step_trans: "lock_step c s s1 \<Longrightarrow> lock_step c s1 s2 \<Longrightarrow> lock_step c s s2"
  unfolding lock_step_def by (elim conjE exE) (auto simp: list_all_append)

lemma fetch_step_refl [simp]: "fetch_step c s s"
  by (simp add: fetch_step_def)

lemma fetch_step_trans: "fetch_step c s s1 \<Longrightarrow> fetch_step c s1 s2 \<Longrightarrow> fetch_step c s s2"
  unfolding fetch_step_def by (elim conjE exE) (auto simp: list_all_append)

lemma lock_step_lock_exists: "lock_step c s (snd (lock_exists e c s))"
  by (auto simp: lock_step_def lock_exists_def blob_exists_def request_def Let_def split: option.splits prod.splits)

lemma lock_step_get_lock_info: "lock_step c s (snd (get_lock_info e c s))"
  by (auto simp: lock_step_def get_lock_info_def blob_exists_def download_as_text_def request_def Let_def
      split: option.splits prod.splits bool.splits blob.splits)

lemma lock_step_create_lock: "lock_step c s (snd (create_lock e c s))"
  by (auto simp: lock_step_def create_lock_def upload_def request_def Let_def split: option.splits prod.splits)

lemma lock_step_force_release_lock: "lock_step c s (snd (force_release_lock e c s))"
  by (auto simp: lock_step_def force_release_lock_def blob_exists_def delete_def request_def Let_def
      split: option.splits prod.splits bool.splits deleted.splits)

lemma lock_step_sleep: "0 \<le> d \<Longrightarrow> lock_step c s (sleep d s)"
  by (auto simp: lock_step_def sleep_def)

lemma lock_step_priv_release_lock: "lock_step c s (snd (priv_release_lock e c s))"
proof (cases "\<not> bucket c \<or> \<not> truthy (lock_id s)")
  case True
  then show ?thesis by (auto simp: priv_release_lock_def lock_step_def)
next
  case False
  obtain v s1 where g: "get_lock_info e c s = (v, s1)" by (cases "get_lock_info e c s")
  have 1: "lock_step c s s1" using lock_step_get_lock_info [of c s e] g by simp
  have 2: "lock_step c s1 (snd (priv_release_lock e c s))"
    using False g
    by (auto simp: priv_release_lock_def lock_step_def delete_def request_def Let_def
        split: prod.splits deleted.splits jval.splits)
  show ?thesis using lock_step_trans [OF 1 2] .
qed

lemma lock_step_release_lock: "lock_step c s (release_lock e c s)"
  by (simp add: release_lock_def lock_step_priv_release_lock)

lemma lock_step_acquire_attempt: "lock_step c s (snd (acquire_attempt e c s))"
proof -
  obtain ex s1 where a: "lock_exists e c s = (ex, s1)" by (cases "lock_exists e c s")
  obtain v s2 where b: "get_lock_info e c s1 = (v, s2)" by (cases "get_lock_info e c s1")
  have 1: "lock_step c s s1" using lock_step_lock_exists [of c s e] a by simp
  have 2: "lock_step c s1 s2" using lock_step_get_lock_info [of c s1 e] b by simp
  have 3: "lock_step c s2 (snd (force_release_lock e c s2))" by (rule lock_step_force_release_lock)
  have 4: "lock_step c s' (snd (create_lock e c s'))" for s' by (rule lock_step_create_lock)
  have 12: "lock_step c s s2" using 1 2 by (rule lock_step_trans)
  have 123: "lock_step c s (snd (force_release_lock e c s2))" using 12 3 by (rule lock_step_trans)
  have 14: "lock_step c s (snd (create_lock e c s1))" using 1 4 by (rule lock_step_trans)
  have 1234: "lock_step c s (snd (create_lock e c (snd (force_release_lock e c s2))))"
    using 123 4 by (rule lock_step_trans)
  show ?thesis
    using a b 12 14 1234
    by (auto simp: acquire_attempt_def split: prod.splits sum.splits bool.splits)
qed

text \<open>The loop of \<open>acquire_lock\<close>, branch by branch, and induction along its retries.\<close>

lemma acquire_loop_timed_out:
  "now s - st > timeout \<Longrightarrow>
   acquire_loop e c timeout st attempt s = (Inl (DatabaseLockException (TimedOut timeout)), s)"
  by (simp add: acquire_loop.simps [of e c timeout st attempt s])

lemma acquire_loop_raised:
  "\<not> now s - st > timeout \<Longrightarrow> acquire_attempt e c s = (Inl err, s1) \<Longrightarrow>
   acquire_loop e c timeout st attempt s = (Inl err, s1)"
  by (simp add: acquire_loop.simps [of e c timeout st attempt s])

lemma acquire_loop_got:
  "\<not> now s - st > timeout \<Longrightarrow> acquire_attempt e c s = (Inr True, s1) \<Longrightarrow>
   acquire_loop e c timeout st attempt s = (Inr True, s1)"
  by (simp add: acquire_loop.simps [of e c timeout st attempt s])

lemma acquire_loop_last:
  "\<not> now s - st > timeout \<Longrightarrow> acquire_attempt e c s = (Inr False, s1) \<Longrightarrow>
   Suc attempt > LOCK_RETRY_ATTEMPTS \<Longrightarrow>
   acquire_loop e c timeout st attempt s =
     (case fst (get_lock_info e c s1) of
        JObj d \<Rightarrow> Inl (DatabaseLockException (AttemptsExceeded (Suc attempt) (owner_of d)))
      | x \<Rightarrow> Inl AttributeError,
      snd (get_lock_info e c s1))"
  by (auto simp: acquire_loop.simps [of e c timeout st attempt s] split: prod.splits jval.splits)

lemma acquire_loop_retry:
  "\<not> now s - st > timeout \<Longrightarrow> acquire_attempt e c s = (Inr False, s1) \<Longrightarrow>
   \<not> Suc attempt > LOCK_RETRY_ATTEMPTS \<Longrightarrow>
   acquire_loop e c timeout st attempt s =
     acquire_loop e c timeout st (Suc attempt) (sleep LOCK_RETRY_DELAY s1)"
  by (simp add: acquire_loop.simps [of e c timeout st attempt s])

lemma acquire_loop_induct [case_names step]:
  assumes "\<And>e c timeout st attempt s.
     (\<And>s1. \<not> now s - st > timeout \<Longrightarrow> acquire_attempt e c s = (Inr False, s1) \<Longrightarrow>
        \<not> Suc attempt > LOCK_RETRY_ATTEMPTS \<Longrightarrow>
        P e c timeout st (Suc attempt) (sleep LOCK_RETRY_DELAY s1)) \<Longrightarrow>
     P e c timeout st attempt s"
  shows "P e c timeout st attempt s"
proof (induction e c timeout st attempt s rule: acquire_loop.induct)
  case (1 e c timeout st attempt s)
  show ?case
    by (rule assms) (rule "1.IH", auto)
qed

text \<open>The cases of one turn of the loop, for proofs by cases.\<close>

lemma acquire_loop_cases [case_names timed_out raised got last retry]:
  assumes "now s - st > timeout \<Longrightarrow> R"
    and "\<And>err s1. \<not> now s - st > timeout \<Longrightarrow> acquire_attempt e c s = (Inl err, s1) \<Longrightarrow> R"
    and "\<And>s1. \<not> now s - st > timeout \<Longrightarrow> acquire_attempt e c s = (Inr True, s1) \<Longrightarrow> R"
    and "\<And>s1. \<not> now s - st > timeout \<Longrightarrow> acquire_attempt e c s = (Inr False, s1) \<Longrightarrow>
           Suc attempt > LOCK_RETRY_ATTEMPTS \<Longrightarrow> R"
    and "\<And>s1. \<not> now s - st > timeout \<Longrightarrow> acquire_attempt e c s = (Inr False, s1) \<Longrightarrow>
           \<not> Suc attempt > LOCK_RETRY_ATTEMPTS \<Longrightarrow> R"
  shows R
proof (cases "now s - st > timeout")
  case True
  then show ?thesis by (rule assms(1))
next
  case nt: False
  obtain r s1 where a: "acquire_attempt e c s = (r, s1)" by (cases "acquire_attempt e c s")
  show ?thesis
  proof (cases r)
    case (Inl err)
    then show ?thesis using assms(2) [OF nt] a by simp
  next
    case (Inr b)
    then show ?thesis using assms(3,4,5) [OF nt] a by (cases b; cases "Suc attempt > LOCK_RETRY_ATTEMPTS") auto
  qed
qed

lemma lock_step_acquire_loop: "lock_step c s (snd (acquire_loop e c timeout st attempt s))"
proof (induction e c timeout st attempt s rule: acquire_loop_induct)
  case (step e c timeout st attempt s)
  have at: "lock_step c s (snd (acquire_attempt e c s))" by (rule lock_step_acquire_attempt)
  show ?case
  proof (cases rule: acquire_loop_cases [where s = s and st = st and timeout = timeout and e = e
        and c = c and attempt = attempt])
    case timed_out
    then show ?thesis by (simp add: acquire_loop_timed_out)
  next
    case (raised err s1)
    then show ?thesis using at by (simp add: acquire_loop_raised)
  next
    case (got s1)
    then show ?thesis using at by (simp add: acquire_loop_got)
  next
    case (last s1)
    have "lock_step c s1 (snd (get_lock_info e c s1))" by (rule lock_step_get_lock_info)
    moreover have "lock_step c s s1" using at last(2) by simp
    ultimately have "lock_step c s (snd (get_lock_info e c s1))" by (rule lock_step_trans [rotated])
    then show ?thesis using last by (simp add: acquire_loop_last)
  next
    case (retry s1)
    have a: "lock_step c s s1" using at retry(2) by simp
    have sl: "lock_step c s1 (sleep LOCK_RETRY_DELAY s1)"
      by (rule lock_step_sleep) (simp add: LOCK_RETRY_DELAY_def)
    have ih: "lock_step c (sleep LOCK_RETRY_DELAY s1)
        (snd (acquire_loop e c timeout st (Suc attempt) (sleep LOCK_RETRY_DELAY s1)))"
      using step [OF retry] .
    show ?thesis
      using lock_step_trans [OF a lock_step_trans [OF sl ih]] retry by (simp add: acquire_loop_retry)
  qed
qed

lemma lock_step_acquire_lock: "lock_step c s (snd (acquire_lock e c timeout s))"
  by (simp add: acquire_lock_def lock_step_acquire_loop)

subsection \<open>Upload\<close>

lemma backup_name_neq [simp]: "backup_name e c s \<noteq> db_filename c"
  by (auto simp: backup_name_def dest: arg_cong [where f = length])

lemma backup_name_neq_sym [simp]: "db_filename c \<noteq> backup_name e c s"
  by (auto simp: backup_name_def dest: arg_cong [where f = length])

lemma upload_db_trace:
  "trace (upload_db e c s) = trace s @
     (if \<not> bucket c then [Print UploadSkipped]
      else if localfile s = None then [Print UploadError]
      else if fails e (ops s) then [Req Upload (db_filename c) False, Print UploadError]
      else Req Upload (db_filename c) True #
           Req Upload (backup_name e c (snd (upload e (db_filename c) (the (localfile s)) s))) (\<not> fails e (Suc (ops s))) #
           (if fails e (Suc (ops s)) then [Print UploadError] else []))"
  by (auto simp: upload_db_def upload_def request_def Let_def split: option.splits prod.splits bool.splits)

lemma upload_db_store_failed:
  "fails e (ops s) \<Longrightarrow> store (upload_db e c s) = store s"
  by (auto simp: upload_db_def upload_def request_def Let_def split: option.splits prod.splits bool.splits)

text \<open>
  Claim C10. Within one call of \<open>upload_db\<close> the database blob is written before the
  backup: a write to any other name than \<open>db_filename\<close> comes right after the write
  of \<open>db_filename\<close>, which has succeeded and is the first request of the call. When the
  write of \<open>db_filename\<close> fails, the bucket is left as it was and no other write is
  tried, so the call makes no backup.
\<close>

theorem upload_db_canonical_first:
  "(\<forall>k ok. Req Upload k ok \<in> set (added s (upload_db e c s)) \<and> k \<noteq> db_filename c \<longrightarrow>
      (\<exists>post. added s (upload_db e c s) =
         Req Upload (db_filename c) True # Req Upload k ok # post)) \<and>
   (Req Upload (db_filename c) False \<in> set (added s (upload_db e c s)) \<longrightarrow>
      store (upload_db e c s) = store s \<and>
      writes (added s (upload_db e c s)) = [db_filename c])"
proof -
  have a: "added s (upload_db e c s) = drop (length (trace s)) (trace (upload_db e c s))"
    by (simp add: added_def)
  show ?thesis
    unfolding a upload_db_trace
    by (auto simp: upload_db_store_failed split: if_splits)
qed

theorem upload_db_canonical_first_witness:
  "Req Upload ''backups/lifegoal.db.20240101000000'' True
     \<in> set (added ex_replica (upload_db (ex_env []) ex_config ex_replica)) \<and>
   (\<exists>post. added ex_replica (upload_db (ex_env []) ex_config ex_replica) =
      Req Upload ''lifegoal.db'' True #
      Req Upload ''backups/lifegoal.db.20240101000000'' True # post) \<and>
   Req Upload ''lifegoal.db'' False
     \<in> set (added ex_replica (upload_db (ex_env [0]) ex_config ex_replica)) \<and>
   store (upload_db (ex_env [0]) ex_config ex_replica) = store ex_replica \<and>
   writes (added ex_replica (upload_db (ex_env [0]) ex_config ex_replica)) = [''lifegoal.db'']"
proof -
  have d: "db_filename ex_config = ''lifegoal.db''"
    by (simp add: ex_config_def)
  have h1: "Req Upload ''backups/lifegoal.db.20240101000000'' True
     \<in> set (added ex_replica (upload_db (ex_env []) ex_config ex_replica))"
    by code_simp
  have h2: "Req Upload ''lifegoal.db'' False
     \<in> set (added ex_replica (upload_db (ex_env [0]) ex_config ex_replica))"
    by code_simp
  show ?thesis
    using h1 h2
      upload_db_canonical_first [of ex_replica "ex_env []" ex_config]
      upload_db_canonical_first [of ex_replica "ex_env [0]" ex_config]
    unfolding d by auto
qed

subsection \<open>Download\<close>

text \<open>
  Claim C3, as the code has it. \<open>download_db\<close> returns \<open>local_path\<close>, or raises the
  error of \<open>initialize_db\<close> when that fails with no file at \<open>local_path\<close>; an error of
  the bucket is never raised. When the blob is there and is fetched, the local file is
  its content. When the bucket answers that there is no blob, \<open>initialize_db\<close> runs: it
  makes a new store where no file is, and completes the file that is there. When the
  \<open>exists\<close> request fails, a new store is made only where no local file is; a local
  file that is there stays as it is. When the download fails, the file is left empty, as
  the failed download leaves it, and no store is made.
\<close>

theorem download_db_local_file:
  "(fst (download_db e c s) = Inr (local_path c) \<or>
    fst (download_db e c s) = Inl DatabaseError \<and> init_fails e None \<and>
    localfile (snd (download_db e c s)) = None) \<and>
   (bucket c \<and> \<not> fails e (ops s) \<and> store s (db_filename c) \<noteq> None \<and>
    \<not> fails e (Suc (ops s)) \<longrightarrow>
      fst (download_db e c s) = Inr (local_path c) \<and>
      localfile (snd (download_db e c s)) = store s (db_filename c)) \<and>
   (bucket c \<and> \<not> fails e (ops s) \<and> store s (db_filename c) = None \<and>
    \<not> init_fails e (localfile s) \<longrightarrow>
      fst (download_db e c s) = Inr (local_path c) \<and>
      localfile (snd (download_db e c s)) =
        Some (case localfile s of None \<Rightarrow> fresh_db e | Some f \<Rightarrow> create_all e f)) \<and>
   (bucket c \<and> fails e (ops s) \<and> localfile s = None \<and> \<not> init_fails e None \<longrightarrow>
      fst (download_db e c s) = Inr (local_path c) \<and>
      localfile (snd (download_db e c s)) = Some (fresh_db e)) \<and>
   (bucket c \<and> fails e (ops s) \<and> localfile s \<noteq> None \<longrightarrow>
      fst (download_db e c s) = Inr (local_path c) \<and>
      localfile (snd (download_db e c s)) = localfile s) \<and>
   (bucket c \<and> \<not> fails e (ops s) \<and> store s (db_filename c) \<noteq> None \<and>
    fails e (Suc (ops s)) \<longrightarrow>
      fst (download_db e c s) = Inr (local_path c) \<and>
      localfile (snd (download_db e c s)) = Some (Text []) \<and>
      engine (snd (download_db e c s)) = engine s)"
  by (auto simp: download_db_def download_db_except_def download_to_filename_def blob_exists_def
      initialize_db_def request_def Let_def split: option.splits prod.splits bool.splits)

theorem download_db_local_file_witness:
  "bucket ex_config \<and>
   \<not> fails (ex_env []) (ops ex_bucket) \<and> store ex_bucket (db_filename ex_config) \<noteq> None \<and>
   \<not> fails (ex_env []) (Suc (ops ex_bucket)) \<and>
   fst (download_db (ex_env []) ex_config ex_bucket) = Inr ''/tmp/lifegoal.db'' \<and>
   localfile (snd (download_db (ex_env []) ex_config ex_bucket)) = Some (Text ''schema'') \<and>
   store ex_replica (db_filename ex_config) = None \<and>
   \<not> init_fails (ex_env []) (localfile ex_replica) \<and>
   localfile (snd (download_db (ex_env []) ex_config ex_replica)) = Some (Text ''schema, row'') \<and>
   fails (ex_env [0]) (ops ex_state) \<and> localfile ex_state = None \<and>
   \<not> init_fails (ex_env [0]) None \<and>
   localfile (snd (download_db (ex_env [0]) ex_config ex_state)) = Some (Text ''schema'') \<and>
   localfile ex_both \<noteq> None \<and>
   localfile (snd (download_db (ex_env [0]) ex_config ex_both)) = Some (Text ''schema, row'') \<and>
   \<not> fails (ex_env [1]) (ops ex_both) \<and> store ex_both (db_filename ex_config) \<noteq> None \<and>
   fails (ex_env [1]) (Suc (ops ex_both)) \<and>
   localfile (snd (download_db (ex_env [1]) ex_config ex_both)) = Some (Text [])"
proof -
  have h: "bucket ex_config"
    "\<not> fails (ex_env []) (ops ex_bucket)" "store ex_bucket (db_filename ex_config) \<noteq> None"
    "\<not> fails (ex_env []) (Suc (ops ex_bucket))"
    "store ex_replica (db_filename ex_config) = None"
    "\<not> init_fails (ex_env []) (localfile ex_replica)"
    "\<not> fails (ex_env []) (ops ex_replica)"
    "fails (ex_env [0]) (ops ex_state)" "localfile ex_state = None"
    "\<not> init_fails (ex_env [0]) None"
    "fails (ex_env [0]) (ops ex_both)" "localfile ex_both \<noteq> None"
    "\<not> fails (ex_env [1]) (ops ex_both)" "store ex_both (db_filename ex_config) \<noteq> None"
    "fails (ex_env [1]) (Suc (ops ex_both))"
    by (simp_all add: ex_config_def ex_env_def ex_bucket_def ex_replica_def ex_both_def ex_state_def)
  have v: "store ex_bucket (db_filename ex_config) = Some (Text ''schema'')"
    "localfile ex_replica = Some (Text ''schema, row'')"
    "localfile ex_both = Some (Text ''schema, row'')"
    "fresh_db (ex_env [0]) = Text ''schema''" "create_all (ex_env []) = (\<lambda>b. b)"
    "local_path ex_config = ''/tmp/lifegoal.db''"
    by (simp_all add: ex_config_def ex_env_def ex_bucket_def ex_replica_def ex_both_def ex_state_def)
  show ?thesis
    using h
      download_db_local_file [of "ex_env []" ex_config ex_bucket]
      download_db_local_file [of "ex_env []" ex_config ex_replica]
      download_db_local_file [of "ex_env [0]" ex_config ex_state]
      download_db_local_file [of "ex_env [0]" ex_config ex_both]
      download_db_local_file [of "ex_env [1]" ex_config ex_both]
    by (simp add: v)
qed

text \<open>
  Claim C3 as it is stated fails, in three runs. The blob is there and the \<open>exists\<close>
  request raises: the file left at \<open>local_path\<close> by an earlier call is kept, where the
  claim has a new empty store. The blob is there and the download fails: the file is left
  empty and \<open>initialize_db\<close> does not run. The bucket is empty, no file is at
  \<open>local_path\<close> and \<open>initialize_db\<close> raises: \<open>download_db\<close> raises.
\<close>

theorem download_db_keeps_local_file_counterexample:
  "localfile (snd (download_db (ex_env [0]) ex_config ex_both)) = Some (Text ''schema, row'') \<and>
   trace (snd (download_db (ex_env [0]) ex_config ex_both)) = [Req Exists ''lifegoal.db'' False] \<and>
   localfile (snd (download_db (ex_env [1]) ex_config ex_both)) = Some (Text []) \<and>
   engine (snd (download_db (ex_env [1]) ex_config ex_both)) = False \<and>
   trace (snd (download_db (ex_env [1]) ex_config ex_both)) =
     [Req Exists ''lifegoal.db'' True, Req Download ''lifegoal.db'' False] \<and>
   fresh_db (ex_env [1]) = Text ''schema'' \<and>
   fst (download_db ex_env_no_init ex_config ex_state) = Inl DatabaseError"
  by code_simp

subsection \<open>The lease: release and expiry\<close>

lemma lock_exists_reads:
  "store (snd (lock_exists e c s)) = store s \<and> lock_id (snd (lock_exists e c s)) = lock_id s"
  by (auto simp: lock_exists_def blob_exists_def request_def Let_def split: option.splits prod.splits)


lemma get_lock_info_reads:
  "store (snd (get_lock_info e c s)) = store s \<and> lock_id (snd (get_lock_info e c s)) = lock_id s"
  by (auto simp: get_lock_info_def blob_exists_def download_as_text_def request_def Let_def
      split: option.splits prod.splits bool.splits blob.splits)

lemma get_lock_info_trace:
  "\<exists>evs. trace (snd (get_lock_info e c s)) = trace s @ evs \<and>
         (\<forall>n. Print n \<notin> set evs) \<and> (\<forall>k ok. Req Delete k ok \<notin> set evs)"
  by (auto simp: get_lock_info_def blob_exists_def download_as_text_def request_def Let_def
      split: option.splits prod.splits bool.splits blob.splits)

text \<open>
  Claim C5. A process whose \<open>lock_id\<close> is not the one that the lock file holds calls
  \<open>release_lock\<close>: the bucket is left as it is (no delete is sent), \<open>_release_lock\<close>
  answers \<open>False\<close> after the warning that the lock is owned by another process, and
  \<open>lock_id\<close> is cleared. A process that never took the lock has \<open>lock_id = None\<close>, and
  for it \<open>release_lock\<close> does nothing. After \<open>release_lock\<close> no \<open>lock_id\<close> is held in
  any case.
\<close>

theorem release_lock_not_owner:
  "(bucket c \<and> truthy (lock_id s) \<and> fst (get_lock_info e c s) = JObj d \<and>
    map_of d ''lock_id'' \<noteq> map_option JStr (lock_id s) \<longrightarrow>
      store (release_lock e c s) = store s \<and>
      lock_id (release_lock e c s) = None \<and>
      \<not> fst (priv_release_lock e c s) \<and>
      Print NotOwner \<in> set (added s (release_lock e c s)) \<and>
      (\<forall>k ok. Req Delete k ok \<notin> set (added s (release_lock e c s)))) \<and>
   (lock_id s = None \<longrightarrow> release_lock e c s = s) \<and>
   \<not> truthy (lock_id (release_lock e c s))"
proof (intro conjI impI)
  show "lock_id s = None \<Longrightarrow> release_lock e c s = s"
    by (simp add: release_lock_def truthy_def)
next
  show "\<not> truthy (lock_id (release_lock e c s))"
    by (auto simp: release_lock_def priv_release_lock_def truthy_def Let_def
        split: prod.splits deleted.splits jval.splits)
next
  assume a: "bucket c \<and> truthy (lock_id s) \<and> fst (get_lock_info e c s) = JObj d \<and>
    map_of d ''lock_id'' \<noteq> map_option JStr (lock_id s)"
  obtain s1 where g: "get_lock_info e c s = (JObj d, s1)"
    using a by (cases "get_lock_info e c s") simp
  have r: "store s1 = store s" "lock_id s1 = lock_id s"
    using get_lock_info_reads [of e c s] g by simp_all
  obtain evs where t: "trace s1 = trace s @ evs" "\<forall>n. Print n \<notin> set evs"
      "\<forall>k ok. Req Delete k ok \<notin> set evs"
    using get_lock_info_trace [of e c s] g by auto
  have p: "priv_release_lock e c s =
      (False, s1\<lparr>lock_id := None, trace := trace s1 @ [Print NotOwner]\<rparr>)"
    using a g r by (simp add: priv_release_lock_def)
  have rl: "release_lock e c s = s1\<lparr>lock_id := None, trace := trace s1 @ [Print NotOwner]\<rparr>"
    using a p by (simp add: release_lock_def)
  show "store (release_lock e c s) = store s" using rl r by simp
  show "lock_id (release_lock e c s) = None" using rl by simp
  show "\<not> fst (priv_release_lock e c s)" using p by simp
  show "Print NotOwner \<in> set (added s (release_lock e c s))"
    using rl t by (simp add: added_def)
  show "\<forall>k ok. Req Delete k ok \<notin> set (added s (release_lock e c s))"
    using rl t by (simp add: added_def)
qed

theorem release_lock_not_owner_witness:
  "bucket ex_config \<and> truthy (lock_id ex_overtaken) \<and>
   fst (get_lock_info (ex_env []) ex_config ex_overtaken) = JObj (ex_lease_info 0) \<and>
   map_of (ex_lease_info 0) ''lock_id'' \<noteq> map_option JStr (lock_id ex_overtaken) \<and>
   store (release_lock (ex_env []) ex_config ex_overtaken) = store ex_overtaken \<and>
   lock_id (release_lock (ex_env []) ex_config ex_overtaken) = None \<and>
   \<not> fst (priv_release_lock (ex_env []) ex_config ex_overtaken) \<and>
   Print NotOwner \<in> set (added ex_overtaken (release_lock (ex_env []) ex_config ex_overtaken)) \<and>
   lock_id ex_state = None \<and>
   release_lock (ex_env []) ex_config ex_state = ex_state"
proof -
  have h: "bucket ex_config \<and> truthy (lock_id ex_overtaken) \<and>
     fst (get_lock_info (ex_env []) ex_config ex_overtaken) = JObj (ex_lease_info 0) \<and>
     map_of (ex_lease_info 0) ''lock_id'' \<noteq> map_option JStr (lock_id ex_overtaken)"
    by code_simp
  have n: "lock_id ex_state = None"
    by (simp add: ex_state_def)
  show ?thesis
    using h n
      release_lock_not_owner [of ex_config ex_overtaken "ex_env []" "ex_lease_info 0"]
      release_lock_not_owner [of ex_config ex_state "ex_env []" "[]"]
    by blast
qed











subsection \<open>The lease: failure to acquire\<close>








subsection \<open>The transaction\<close>

lemma lock_name_neq [simp]: "get_lock_blob_name c \<noteq> db_filename c"
  by (auto simp: get_lock_blob_name_def dest: arg_cong [where f = length])

lemma lock_name_neq_sym [simp]: "db_filename c \<noteq> get_lock_blob_name c"
  by (auto simp: get_lock_blob_name_def dest: arg_cong [where f = length])

lemma backup_name_not_lock [simp]: "backup_name e c s \<noteq> get_lock_blob_name c"
  by (auto simp: backup_name_def get_lock_blob_name_def dest: arg_cong [where f = length])

lemma backup_name_not_lock_sym [simp]: "get_lock_blob_name c \<noteq> backup_name e c s"
  by (auto simp: backup_name_def get_lock_blob_name_def dest: arg_cong [where f = length])

lemma fetch_step_download_db: "fetch_step c s (snd (download_db e c s))"
  by (auto simp: fetch_step_def download_db_def download_db_except_def download_to_filename_def
      blob_exists_def initialize_db_def request_def Let_def
      split: option.splits prod.splits bool.splits)

lemma fetch_step_get_session: "fetch_step c s (snd (get_session e c s))"
proof -
  have "fetch_step c s ((snd (download_db e c s))\<lparr>engine := True\<rparr>)"
    using fetch_step_download_db [of c s e] by (simp add: fetch_step_def)
  then show ?thesis
    using fetch_step_download_db [of c s e]
    by (auto simp: get_session_def split: prod.splits sum.splits)
qed

lemma fetch_step_opened_session:
  "fetch_step c (snd (acquire_lock e c 60 s)) (snd (opened_session e c s))"
proof -
  let ?s1 = "snd (acquire_lock e c 60 s)"
  have 1: "fetch_step c ?s1 (snd (download_db e c ?s1))" by (rule fetch_step_download_db)
  have 2: "fetch_step c (snd (download_db e c ?s1)) (snd (get_session e c (snd (download_db e c ?s1))))"
    by (rule fetch_step_get_session)
  show ?thesis
    using 1 fetch_step_trans [OF 1 2]
    by (auto simp: opened_session_def split: prod.splits sum.splits)
qed

lemma lock_events_writes:
  "list_all (lock_event c) evs \<Longrightarrow> filter (\<lambda>k. k \<noteq> get_lock_blob_name c) (writes evs) = []"
proof (induction evs)
  case Nil
  then show ?case by simp
next
  case (Cons ev evs)
  then show ?case by (cases ev rule: written.cases) auto
qed

lemma fetch_events_writes: "list_all (fetch_event c) evs \<Longrightarrow> writes evs = []"
proof (induction evs)
  case Nil
  then show ?case by simp
next
  case (Cons ev evs)
  then show ?case by (cases ev rule: written.cases) auto
qed

lemma with_session_opened:
  assumes "acquire_lock e c 60 s = (Inr b, s1)" and "opened_session e c s = (Inr sess, s3)"
  shows "with_session e c func s =
    (fst (run_transform e c func sess s3),
     release_lock e c
       ((snd (run_transform e c func sess s3))
          \<lparr>trace := trace (snd (run_transform e c func sess s3)) @ [ReleaseLock]\<rparr>))"
  using assms
  by (auto simp: with_session_def opened_session_def split: prod.splits sum.splits)

lemma with_session_not_opened:
  assumes "acquire_lock e c 60 s = (Inr b, s1)" and "opened_session e c s = (Inl err, s3)"
  shows "with_session e c func s =
    (Inl err, release_lock e c (s3\<lparr>trace := trace s3 @ [ReleaseLock]\<rparr>))"
  using assms
  by (auto simp: with_session_def opened_session_def split: prod.splits sum.splits)

lemma with_session_raises:
  assumes "acquire_lock e c 60 s = (Inr b, s1)" and "opened_session e c s = (Inr sess, s3)"
    and "func sess = (Inl x, sess1)"
  shows "with_session e c func s =
    (Inl (Raised x),
     release_lock e c (s3\<lparr>localfile := committed sess1,
        trace := trace s3 @ [Rollback, Print (OperationError x), Close, ReleaseLock]\<rparr>))"
  using assms(3) unfolding with_session_opened [OF assms(1,2)]
  by (simp add: run_transform_def)

lemma with_session_returns:
  assumes "acquire_lock e c 60 s = (Inr b, s1)" and "opened_session e c s = (Inr sess, s3)"
    and "func sess = (Inr r, sess1)"
    and "u = upload_db e c (s3\<lparr>localfile := working sess1, trace := trace s3 @ [Commit]\<rparr>)"
  shows "with_session e c func s =
    (Inr r, release_lock e c (u\<lparr>trace := trace u @ [Close, ReleaseLock]\<rparr>))"
  using assms(3,4) unfolding with_session_opened [OF assms(1,2)]
  by (simp add: run_transform_def)

lemma with_session_unlocked:
  assumes "acquire_lock e c 60 s = (Inl err, s1)"
  shows "with_session e c func s = (Inl err, s1)"
  using assms by (simp add: with_session_def)

text \<open>What \<open>upload_db\<close> does, case by case.\<close>

lemma upload_db_cases:
  "\<exists>evs. trace (upload_db e c s) = trace s @ evs \<and>
     lock_id (upload_db e c s) = lock_id s \<and> localfile (upload_db e c s) = localfile s \<and>
     store (upload_db e c s) (get_lock_blob_name c) = store s (get_lock_blob_name c) \<and>
     (evs = [Print UploadSkipped] \<and> \<not> bucket c \<and> store (upload_db e c s) = store s \<or>
      evs = [Print UploadError] \<and> store (upload_db e c s) = store s \<or>
      evs = [Req Upload (db_filename c) False, Print UploadError] \<and>
        store (upload_db e c s) = store s \<or>
      (\<exists>s1. evs = [Req Upload (db_filename c) True, Req Upload (backup_name e c s1) False,
                   Print UploadError]) \<and>
        store (upload_db e c s) (db_filename c) = localfile s \<or>
      (\<exists>s1. evs = [Req Upload (db_filename c) True, Req Upload (backup_name e c s1) True]) \<and>
        store (upload_db e c s) (db_filename c) = localfile s)"
proof (cases "bucket c")
  case False
  then show ?thesis by (simp add: upload_db_def)
next
  case b: True
  show ?thesis
  proof (cases "localfile s")
    case None
    then show ?thesis using b by (simp add: upload_db_def)
  next
    case (Some f)
    obtain ok s1 where u1: "upload e (db_filename c) f s = (ok, s1)"
      by (cases "upload e (db_filename c) f s")
    obtain ok2 s2 where u2: "upload e (backup_name e c s1) f s1 = (ok2, s2)"
      by (cases "upload e (backup_name e c s1) f s1")
    have 1: "trace s1 = trace s @ [Req Upload (db_filename c) ok]" "lock_id s1 = lock_id s"
      "localfile s1 = localfile s" "\<not> ok \<Longrightarrow> store s1 = store s"
      "ok \<Longrightarrow> store s1 = (store s)(db_filename c \<mapsto> f)"
      using u1 by (auto simp: upload_def request_def Let_def split: if_splits)
    have 2: "trace s2 = trace s1 @ [Req Upload (backup_name e c s1) ok2]" "lock_id s2 = lock_id s1"
      "localfile s2 = localfile s1" "\<not> ok2 \<Longrightarrow> store s2 = store s1"
      "ok2 \<Longrightarrow> store s2 = (store s1)(backup_name e c s1 \<mapsto> f)"
      using u2 by (auto simp: upload_def request_def Let_def split: if_splits)
    show ?thesis
    proof (cases ok)
      case False
      then show ?thesis using b Some u1 1 by (simp add: upload_db_def)
    next
      case ok: True
      show ?thesis
      proof (cases ok2)
        case False
        have "upload_db e c s = s2\<lparr>trace := trace s2 @ [Print UploadError]\<rparr>"
          using b Some u1 u2 ok False by (simp add: upload_db_def)
        then show ?thesis using 1 2 ok False Some by auto
      next
        case True
        have "upload_db e c s = s2"
          using b Some u1 u2 ok True by (simp add: upload_db_def)
        then show ?thesis using 1 2 ok True Some by auto
      qed
    qed
  qed
qed

lemma lock_events_only:
  assumes "list_all (lock_event c) evs"
  shows "Commit \<notin> set evs" "Rollback \<notin> set evs" "Close \<notin> set evs" "ReleaseLock \<notin> set evs"
    "Print UploadError \<notin> set evs" "k \<noteq> get_lock_blob_name c \<Longrightarrow> Req a k ok \<notin> set evs"
  using assms by (auto simp: list_all_iff)

lemma fetch_events_only:
  assumes "list_all (fetch_event c) evs"
  shows "Commit \<notin> set evs" "Rollback \<notin> set evs" "Close \<notin> set evs" "ReleaseLock \<notin> set evs"
    "Print n \<notin> set evs" "Req Upload k ok \<notin> set evs"
  using assms by (auto simp: list_all_iff)

lemma session_opened:
  assumes "fst (acquire_lock e c 60 s) = Inr b"
  obtains s1 s3 A B where
    "acquire_lock e c 60 s = (Inr b, s1)" and "snd (opened_session e c s) = s3"
    and "trace s3 = trace s @ A @ B" and "list_all (lock_event c) A" and "list_all (fetch_event c) B"
    and "\<forall>k. k \<noteq> get_lock_blob_name c \<longrightarrow> store s3 k = store s k"
    and "store s3 (get_lock_blob_name c) = store s1 (get_lock_blob_name c)"
    and "lock_id s3 = lock_id s1"
proof -
  obtain s1 where a: "acquire_lock e c 60 s = (Inr b, s1)"
    using assms by (cases "acquire_lock e c 60 s") simp
  define s3 where "s3 = snd (opened_session e c s)"
  have l: "lock_step c s s1" using lock_step_acquire_lock [of c s e 60] a by simp
  have f: "fetch_step c s1 s3" using fetch_step_opened_session [of c e s] a by (simp add: s3_def)
  obtain A where A: "trace s1 = trace s @ A" "list_all (lock_event c) A"
    using l by (auto simp: lock_step_def)
  obtain B where B: "trace s3 = trace s1 @ B" "list_all (fetch_event c) B"
    using f by (auto simp: fetch_step_def)
  have st: "\<forall>k. k \<noteq> get_lock_blob_name c \<longrightarrow> store s3 k = store s k"
    using l f by (simp add: lock_step_def fetch_step_def)
  have lk: "store s3 (get_lock_blob_name c) = store s1 (get_lock_blob_name c)"
      "lock_id s3 = lock_id s1"
    using f by (simp_all add: fetch_step_def)
  show ?thesis
    using that [OF a s3_def [symmetric] _ A(2) B(2) st lk] A(1) B(1) by simp
qed

lemma release_lock_step:
  obtains D where "trace (release_lock e c s) = trace s @ D" and "list_all (lock_event c) D"
    and "\<forall>k. k \<noteq> get_lock_blob_name c \<longrightarrow> store (release_lock e c s) k = store s k"
    and "localfile (release_lock e c s) = localfile s"
  using lock_step_release_lock [of c s e] by (auto simp: lock_step_def)

lemma release_lock_clears: "\<not> truthy (lock_id (release_lock e c s))"
  by (auto simp: release_lock_def priv_release_lock_def truthy_def Let_def
      split: prod.splits deleted.splits jval.splits)

text \<open>
  Claim C1. The lock has been acquired and the transform raises \<open>x\<close> on the session it
  is given. Then \<open>with_session\<close> raises \<open>x\<close> itself; the database blob, and every blob
  but the lock file, is what it was before the call, and no blob but the lock file is
  written; the session is rolled back and never committed, so the local file is what the
  transform left committed.
\<close>

theorem with_session_transform_raises:
  assumes "fst (acquire_lock e c 60 s) = Inr b"
    and "fst (opened_session e c s) = Inr sess"
    and "func sess = (Inl x, sess1)"
  shows "fst (with_session e c func s) = Inl (Raised x) \<and>
    store (snd (with_session e c func s)) (db_filename c) = store s (db_filename c) \<and>
    (\<forall>k. k \<noteq> get_lock_blob_name c \<longrightarrow> store (snd (with_session e c func s)) k = store s k) \<and>
    filter (\<lambda>k. k \<noteq> get_lock_blob_name c) (writes (added s (snd (with_session e c func s)))) = [] \<and>
    Rollback \<in> set (added s (snd (with_session e c func s))) \<and>
    Commit \<notin> set (added s (snd (with_session e c func s))) \<and>
    localfile (snd (with_session e c func s)) = committed sess1"
proof -
  obtain s1 s3 A B where o: "acquire_lock e c 60 s = (Inr b, s1)"
      "snd (opened_session e c s) = s3"
      "trace s3 = trace s @ A @ B" "list_all (lock_event c) A" "list_all (fetch_event c) B"
      "\<forall>k. k \<noteq> get_lock_blob_name c \<longrightarrow> store s3 k = store s k"
      "store s3 (get_lock_blob_name c) = store s1 (get_lock_blob_name c)"
      "lock_id s3 = lock_id s1"
    by (rule session_opened [OF assms(1)])
  have os: "opened_session e c s = (Inr sess, s3)"
    using assms(2) o(2) by (cases "opened_session e c s") simp
  define sx where "sx = s3\<lparr>localfile := committed sess1,
        trace := trace s3 @ [Rollback, Print (OperationError x), Close, ReleaseLock]\<rparr>"
  have w: "with_session e c func s = (Inl (Raised x), release_lock e c sx)"
    unfolding sx_def using o(1) os assms(3) by (rule with_session_raises)
  obtain D where D: "trace (release_lock e c sx) = trace sx @ D" "list_all (lock_event c) D"
      "\<forall>k. k \<noteq> get_lock_blob_name c \<longrightarrow> store (release_lock e c sx) k = store sx k"
      "localfile (release_lock e c sx) = localfile sx"
    using release_lock_step [of e c sx] by blast
  have ad: "added s (release_lock e c sx) =
      A @ B @ [Rollback, Print (OperationError x), Close, ReleaseLock] @ D"
    using D(1) o(3) by (simp add: added_def sx_def)
  have st: "\<forall>k. k \<noteq> get_lock_blob_name c \<longrightarrow> store (release_lock e c sx) k = store s k"
    using D(3) o(6) by (simp add: sx_def)
  have 1: "fst (with_session e c func s) = Inl (Raised x)" using w by simp
  have 2: "store (snd (with_session e c func s)) (db_filename c) = store s (db_filename c)"
    using w st by simp
  have 3: "\<forall>k. k \<noteq> get_lock_blob_name c \<longrightarrow> store (snd (with_session e c func s)) k = store s k"
    using w st by simp
  have 4: "filter (\<lambda>k. k \<noteq> get_lock_blob_name c) (writes (added s (snd (with_session e c func s)))) = []"
    using w ad lock_events_writes [OF o(4)] lock_events_writes [OF D(2)] fetch_events_writes [OF o(5)]
    by simp
  have 5: "Rollback \<in> set (added s (snd (with_session e c func s)))"
    using w ad by simp
  have 6: "Commit \<notin> set (added s (snd (with_session e c func s)))"
    using w ad lock_events_only(1) [OF o(4)] lock_events_only(1) [OF D(2)] fetch_events_only(1) [OF o(5)]
    by simp
  have 7: "localfile (snd (with_session e c func s)) = committed sess1"
    using w D(4) by (simp add: sx_def)
  show ?thesis using 1 2 3 4 5 6 7 by blast
qed

theorem with_session_transform_raises_witness:
  "fst (acquire_lock (ex_env []) ex_config 60 ex_bucket) = Inr True \<and>
   fst (opened_session (ex_env []) ex_config ex_bucket) = Inr ex_session \<and>
   ex_raise ex_session =
     (Inl ''ValueError'', ex_session\<lparr>working := Some (Text ''schema, half a row'')\<rparr>) \<and>
   fst (with_session (ex_env []) ex_config ex_raise ex_bucket) = Inl (Raised ''ValueError'') \<and>
   store (snd (with_session (ex_env []) ex_config ex_raise ex_bucket)) (db_filename ex_config)
     = store ex_bucket (db_filename ex_config) \<and>
   filter (\<lambda>k. k \<noteq> get_lock_blob_name ex_config)
     (writes (added ex_bucket (snd (with_session (ex_env []) ex_config ex_raise ex_bucket)))) = [] \<and>
   Rollback \<in> set (added ex_bucket (snd (with_session (ex_env []) ex_config ex_raise ex_bucket))) \<and>
   localfile (snd (with_session (ex_env []) ex_config ex_raise ex_bucket)) = Some (Text ''schema'')"
proof -
  have h1: "fst (acquire_lock (ex_env []) ex_config 60 ex_bucket) = Inr True"
    by code_simp
  have h2: "fst (opened_session (ex_env []) ex_config ex_bucket) = Inr ex_session"
    by code_simp
  have h3: "ex_raise ex_session =
     (Inl ''ValueError'', ex_session\<lparr>working := Some (Text ''schema, half a row'')\<rparr>)"
    by (simp add: ex_raise_def)
  have c: "committed (ex_session\<lparr>working := Some (Text ''schema, half a row'')\<rparr>)
      = Some (Text ''schema'')"
    by (simp add: ex_session_def)
  show ?thesis
    using h1 h2 h3 with_session_transform_raises [where func = ex_raise, OF h1 h2 h3]
    unfolding c by blast
qed

text \<open>
  Claim C7, as the code has it. The lock has been acquired and the transform returns
  \<open>r\<close> on the session it is given. Then \<open>with_session\<close> returns \<open>r\<close> whatever \<open>upload_db\<close> does; there is no
  rollback, and the local file holds what the transform wrote. When the write of the
  database blob fails, the error is printed and the blob is what it was before the call.
  When a write of another blob (the backup) fails, the error is printed as well, and the
  database blob already holds the new content.
\<close>

theorem with_session_upload_fails:
  assumes "fst (acquire_lock e c 60 s) = Inr b"
    and "fst (opened_session e c s) = Inr sess"
    and "func sess = (Inr r, sess1)"
  shows "fst (with_session e c func s) = Inr r \<and>
    Rollback \<notin> set (added s (snd (with_session e c func s))) \<and>
    localfile (snd (with_session e c func s)) = working sess1 \<and>
    (Req Upload (db_filename c) False \<in> set (added s (snd (with_session e c func s))) \<longrightarrow>
       Print UploadError \<in> set (added s (snd (with_session e c func s))) \<and>
       store (snd (with_session e c func s)) (db_filename c) = store s (db_filename c)) \<and>
    (\<forall>k. k \<noteq> db_filename c \<and> k \<noteq> get_lock_blob_name c \<and>
         Req Upload k False \<in> set (added s (snd (with_session e c func s))) \<longrightarrow>
       Print UploadError \<in> set (added s (snd (with_session e c func s))) \<and>
       store (snd (with_session e c func s)) (db_filename c) = working sess1)"
proof -
  obtain s1 s3 A B where o: "acquire_lock e c 60 s = (Inr b, s1)"
      "snd (opened_session e c s) = s3"
      "trace s3 = trace s @ A @ B" "list_all (lock_event c) A" "list_all (fetch_event c) B"
      "\<forall>k. k \<noteq> get_lock_blob_name c \<longrightarrow> store s3 k = store s k"
      "store s3 (get_lock_blob_name c) = store s1 (get_lock_blob_name c)"
      "lock_id s3 = lock_id s1"
    by (rule session_opened [OF assms(1)])
  have os: "opened_session e c s = (Inr sess, s3)"
    using assms(2) o(2) by (cases "opened_session e c s") simp
  define sc where "sc = s3\<lparr>localfile := working sess1, trace := trace s3 @ [Commit]\<rparr>"
  define u where "u = upload_db e c sc"
  define sx where "sx = u\<lparr>trace := trace u @ [Close, ReleaseLock]\<rparr>"
  have w: "with_session e c func s = (Inr r, release_lock e c sx)"
    unfolding sx_def using o(1) os assms(3) u_def [unfolded sc_def] by (rule with_session_returns)
  obtain D where D: "trace (release_lock e c sx) = trace sx @ D" "list_all (lock_event c) D"
      "\<forall>k. k \<noteq> get_lock_blob_name c \<longrightarrow> store (release_lock e c sx) k = store sx k"
      "localfile (release_lock e c sx) = localfile sx"
    using release_lock_step [of e c sx] by blast
  obtain U where U: "trace u = trace sc @ U" "localfile u = localfile sc"
    "U = [Print UploadSkipped] \<and> \<not> bucket c \<and> store u = store sc \<or>
      U = [Print UploadError] \<and> store u = store sc \<or>
      U = [Req Upload (db_filename c) False, Print UploadError] \<and> store u = store sc \<or>
      (\<exists>s1. U = [Req Upload (db_filename c) True, Req Upload (backup_name e c s1) False,
                   Print UploadError]) \<and>
        store u (db_filename c) = localfile sc \<or>
      (\<exists>s1. U = [Req Upload (db_filename c) True, Req Upload (backup_name e c s1) True]) \<and>
        store u (db_filename c) = localfile sc"
    using upload_db_cases [of e c sc] unfolding u_def by blast
  have ad: "added s (release_lock e c sx) = A @ B @ [Commit] @ U @ [Close, ReleaseLock] @ D"
    using D(1) U(1) o(3) by (simp add: added_def sx_def sc_def)
  have st: "store (release_lock e c sx) (db_filename c) = store u (db_filename c)"
    using D(3) by (simp add: sx_def)
  have s0: "store sc (db_filename c) = store s (db_filename c)"
    using o(6) by (simp add: sc_def)
  note [simp] = lock_events_only [OF o(4)] lock_events_only [OF D(2)] fetch_events_only [OF o(5)]
  have 1: "fst (with_session e c func s) = Inr r" using w by simp
  have 2: "Rollback \<notin> set (added s (release_lock e c sx))"
    using ad U(3) by auto
  have 3: "localfile (release_lock e c sx) = working sess1"
    using D(4) U(2) by (simp add: sx_def sc_def)
  have 4: "Req Upload (db_filename c) False \<in> set (added s (release_lock e c sx)) \<longrightarrow>
       Print UploadError \<in> set (added s (release_lock e c sx)) \<and>
       store (release_lock e c sx) (db_filename c) = store s (db_filename c)"
    using ad U(3) st s0 by auto
  have 5: "\<forall>k. k \<noteq> db_filename c \<and> k \<noteq> get_lock_blob_name c \<and>
         Req Upload k False \<in> set (added s (release_lock e c sx)) \<longrightarrow>
       Print UploadError \<in> set (added s (release_lock e c sx)) \<and>
       store (release_lock e c sx) (db_filename c) = working sess1"
    using ad U(3) st by (auto simp: sc_def)
  show ?thesis using 1 2 3 4 5 w by simp
qed

theorem with_session_upload_fails_witness:
  "fst (acquire_lock (ex_env [6]) ex_config 60 ex_bucket) = Inr True \<and>
   fst (opened_session (ex_env [6]) ex_config ex_bucket) = Inr ex_session \<and>
   ex_add_row ex_session = (Inr 1, ex_session\<lparr>working := Some (Text ''schema, row'')\<rparr>) \<and>
   Req Upload (db_filename ex_config) False
     \<in> set (added ex_bucket (snd (with_session (ex_env [6]) ex_config ex_add_row ex_bucket))) \<and>
   fst (with_session (ex_env [6]) ex_config ex_add_row ex_bucket) = Inr 1 \<and>
   Rollback \<notin> set (added ex_bucket (snd (with_session (ex_env [6]) ex_config ex_add_row ex_bucket))) \<and>
   Print UploadError
     \<in> set (added ex_bucket (snd (with_session (ex_env [6]) ex_config ex_add_row ex_bucket))) \<and>
   store (snd (with_session (ex_env [6]) ex_config ex_add_row ex_bucket)) (db_filename ex_config)
     = store ex_bucket (db_filename ex_config) \<and>
   fst (acquire_lock (ex_env [7]) ex_config 60 ex_bucket) = Inr True \<and>
   fst (opened_session (ex_env [7]) ex_config ex_bucket) = Inr ex_session \<and>
   Req Upload ''backups/lifegoal.db.20240101000000'' False
     \<in> set (added ex_bucket (snd (with_session (ex_env [7]) ex_config ex_add_row ex_bucket))) \<and>
   store (snd (with_session (ex_env [7]) ex_config ex_add_row ex_bucket)) (db_filename ex_config)
     = Some (Text ''schema, row'')"
proof -
  have h1: "fst (acquire_lock (ex_env [6]) ex_config 60 ex_bucket) = Inr True"
    by code_simp
  have h2: "fst (opened_session (ex_env [6]) ex_config ex_bucket) = Inr ex_session"
    by code_simp
  have h3: "ex_add_row ex_session = (Inr 1, ex_session\<lparr>working := Some (Text ''schema, row'')\<rparr>)"
    by (simp add: ex_add_row_def)
  have h4: "Req Upload (db_filename ex_config) False
     \<in> set (added ex_bucket (snd (with_session (ex_env [6]) ex_config ex_add_row ex_bucket)))"
    by code_simp
  have g1: "fst (acquire_lock (ex_env [7]) ex_config 60 ex_bucket) = Inr True"
    by code_simp
  have g2: "fst (opened_session (ex_env [7]) ex_config ex_bucket) = Inr ex_session"
    by code_simp
  have g4: "Req Upload ''backups/lifegoal.db.20240101000000'' False
     \<in> set (added ex_bucket (snd (with_session (ex_env [7]) ex_config ex_add_row ex_bucket)))"
    by code_simp
  have n: "''backups/lifegoal.db.20240101000000'' \<noteq> db_filename ex_config"
      "''backups/lifegoal.db.20240101000000'' \<noteq> get_lock_blob_name ex_config"
    by (simp_all add: ex_config_def get_lock_blob_name_def)
  have w: "working (ex_session\<lparr>working := Some (Text ''schema, row'')\<rparr>) = Some (Text ''schema, row'')"
    by simp
  note a = with_session_upload_fails [where func = ex_add_row, OF h1 h2 h3]
  note b = with_session_upload_fails [where func = ex_add_row, OF g1 g2 h3]
  have "store (snd (with_session (ex_env [7]) ex_config ex_add_row ex_bucket)) (db_filename ex_config)
     = Some (Text ''schema, row'')"
    using b g4 n unfolding w by blast
  then show ?thesis
    using h1 h2 h3 h4 g1 g2 g4 a by blast
qed

text \<open>
  Claim C7 as it is stated fails: the write of the backup fails after the write of the
  database blob has succeeded. The upload error is printed, \<open>with_session\<close> returns the
  result, and the database blob is changed, not left stale.
\<close>

theorem with_session_backup_fails_counterexample:
  "fst (with_session (ex_env [7]) ex_config ex_add_row ex_bucket) = Inr 1 \<and>
   trace (snd (with_session (ex_env [7]) ex_config ex_add_row ex_bucket)) =
     [Req Exists ex_lock True, Req Upload ex_lock True,
      Req Exists ''lifegoal.db'' True, Req Download ''lifegoal.db'' True,
      Req Exists ''lifegoal.db'' True, Req Download ''lifegoal.db'' True,
      Commit,
      Req Upload ''lifegoal.db'' True, Req Upload ''backups/lifegoal.db.20240101000000'' False,
      Print UploadError, Close, ReleaseLock,
      Req Exists ex_lock True, Req Download ex_lock True, Req Delete ex_lock True] \<and>
   store ex_bucket ''lifegoal.db'' = Some (Text ''schema'') \<and>
   store (snd (with_session (ex_env [7]) ex_config ex_add_row ex_bucket)) ''lifegoal.db''
     = Some (Text ''schema, row'')"
  by code_simp




subsection \<open>The transaction: release of the lock\<close>

lemma create_lock_failed_lock_id:
  "create_lock e c s = (False, s1) \<Longrightarrow> lock_id s1 = None"
  by (auto simp: create_lock_def Let_def split: if_splits prod.splits)

lemma acquire_attempt_failed_lock_id:
  assumes "acquire_attempt e c s = (r, s1)" and "r \<noteq> Inr True"
  shows "lock_id s1 = lock_id s \<or> lock_id s1 = None"
proof -
  obtain ex t1 where a: "lock_exists e c s = (ex, t1)" by (cases "lock_exists e c s")
  obtain d t2 where b: "get_lock_info e c t1 = (d, t2)" by (cases "get_lock_info e c t1")
  have 1: "lock_id t1 = lock_id s" using lock_exists_reads [of e c s] a by simp
  have 2: "lock_id t2 = lock_id t1" using get_lock_info_reads [of e c t1] b by simp
  show ?thesis
  proof (cases r)
    case (Inl err)
    then show ?thesis
      using assms(1) a b 1 2
      by (auto simp: acquire_attempt_def split: if_splits sum.splits bool.splits prod.splits)
  next
    case (Inr g)
    then have "r = Inr False" using assms(2) by (cases g) simp_all
    then show ?thesis
      using assms(1) a b 1 2
      by (auto simp: acquire_attempt_def dest: create_lock_failed_lock_id
          split: if_splits sum.splits bool.splits prod.splits)
  qed
qed

lemma acquire_loop_failed_lock_id:
  "acquire_loop e c timeout st attempt s = (Inl err, s') \<Longrightarrow>
     lock_id s' = lock_id s \<or> lock_id s' = None"
proof (induction e c timeout st attempt s rule: acquire_loop_induct)
  case (step e c timeout st attempt s)
  show ?case
  proof (cases rule: acquire_loop_cases [where s = s and st = st and timeout = timeout and e = e
        and c = c and attempt = attempt])
    case timed_out
    then show ?thesis using step.prems by (simp add: acquire_loop_timed_out)
  next
    case (raised err1 s1)
    then show ?thesis
      using step.prems acquire_attempt_failed_lock_id [of e c s "Inl err1" s1]
      by (simp add: acquire_loop_raised)
  next
    case (got s1)
    then show ?thesis using step.prems by (simp add: acquire_loop_got)
  next
    case (last s1)
    have "s' = snd (get_lock_info e c s1)"
      using step.prems last by (simp add: acquire_loop_last)
    then show ?thesis
      using acquire_attempt_failed_lock_id [of e c s "Inr False" s1] last(2)
        get_lock_info_reads [of e c s1]
      by auto
  next
    case (retry s1)
    have rec: "acquire_loop e c timeout st (Suc attempt) (sleep LOCK_RETRY_DELAY s1) = (Inl err, s')"
      using step.prems retry by (simp add: acquire_loop_retry)
    have "lock_id s' = lock_id (sleep LOCK_RETRY_DELAY s1) \<or> lock_id s' = None"
      using step.IH [OF retry rec] .
    then show ?thesis
      using acquire_attempt_failed_lock_id [of e c s "Inr False" s1] retry(2)
      by (auto simp: sleep_def)
  qed
qed

lemma acquire_lock_failed_lock_id:
  "acquire_lock e c timeout s = (Inl err, s') \<Longrightarrow> lock_id s' = lock_id s \<or> lock_id s' = None"
  by (auto simp: acquire_lock_def dest: acquire_loop_failed_lock_id split: if_splits)

text \<open>With a bucket, the lock is acquired by writing a lease that carries a new \<open>lock_id\<close>.\<close>

lemma create_lock_holds:
  assumes "bucket c" and "create_lock e c s = (True, s1)"
  shows "holds_lease c s1"
  using assms
  by (auto simp: create_lock_def upload_def request_def Let_def generate_lock_id_def
      holds_lease_def truthy_def split: if_splits)

lemma acquire_attempt_holds:
  assumes "bucket c" and "acquire_attempt e c s = (Inr True, s1)"
  shows "holds_lease c s1"
proof -
  have "\<exists>t. create_lock e c t = (True, s1)"
    using assms(2)
    by (auto simp: acquire_attempt_def Let_def
        split: if_splits sum.splits bool.splits prod.splits)
  then show ?thesis using create_lock_holds [OF assms(1)] by blast
qed

lemma acquire_loop_holds:
  "bucket c \<Longrightarrow> acquire_loop e c timeout st attempt s = (Inr b, s') \<Longrightarrow> holds_lease c s'"
proof (induction e c timeout st attempt s rule: acquire_loop_induct)
  case (step e c timeout st attempt s)
  show ?case
  proof (cases rule: acquire_loop_cases [where s = s and st = st and timeout = timeout and e = e
        and c = c and attempt = attempt])
    case timed_out
    then show ?thesis using step.prems by (simp add: acquire_loop_timed_out)
  next
    case (raised err1 s1)
    then show ?thesis using step.prems by (simp add: acquire_loop_raised)
  next
    case (got s1)
    then show ?thesis
      using step.prems acquire_attempt_holds [of c e s s1] by (simp add: acquire_loop_got)
  next
    case (last s1)
    then show ?thesis
      using step.prems by (auto simp: acquire_loop_last split: jval.splits)
  next
    case (retry s1)
    have rec: "acquire_loop e c timeout st (Suc attempt) (sleep LOCK_RETRY_DELAY s1) = (Inr b, s')"
      using step.prems retry by (simp add: acquire_loop_retry)
    show ?thesis using step.IH [OF retry step.prems(1) rec] .
  qed
qed

lemma acquire_lock_holds:
  "bucket c \<Longrightarrow> acquire_lock e c timeout s = (Inr b, s') \<Longrightarrow> holds_lease c s'"
  by (auto simp: acquire_lock_def dest: acquire_loop_holds)

text \<open>The release by the holder of the lease, when no request fails.\<close>

lemma release_lock_holder:
  assumes "bucket c" and "holds_lease c s"
    and "\<forall>a k. Req a k False \<notin> set (added s (release_lock e c s))"
  shows "added s (release_lock e c s) =
      [Req Exists (get_lock_blob_name c) True, Req Download (get_lock_blob_name c) True,
       Req Delete (get_lock_blob_name c) True] \<and>
    store (release_lock e c s) (get_lock_blob_name c) = None"
proof -
  obtain i d where h: "lock_id s = Some i" "i \<noteq> []"
      "store s (get_lock_blob_name c) = Some (Json (JObj d))"
      "map_of d ''lock_id'' = Some (JStr i)"
    using assms(2)
    by (auto simp: holds_lease_def truthy_def split: option.splits blob.splits jval.splits)
  show ?thesis
  proof (cases "fails e (ops s)")
    case True
    then have "Req Exists (get_lock_blob_name c) False \<in> set (added s (release_lock e c s))"
      using assms(1) h
      by (simp add: added_def release_lock_def priv_release_lock_def truthy_def get_lock_info_def
          blob_exists_def request_def Let_def)
    then show ?thesis using assms(3) by blast
  next
    case f0: False
    show ?thesis
    proof (cases "fails e (Suc (ops s))")
      case True
      then have "Req Download (get_lock_blob_name c) False \<in> set (added s (release_lock e c s))"
        using assms(1) h f0
        by (simp add: added_def release_lock_def priv_release_lock_def truthy_def get_lock_info_def
            blob_exists_def download_as_text_def request_def Let_def)
      then show ?thesis using assms(3) by blast
    next
      case f1: False
      show ?thesis
      proof (cases "fails e (Suc (Suc (ops s)))")
        case True
        then have "Req Delete (get_lock_blob_name c) False \<in> set (added s (release_lock e c s))"
          using assms(1) h f0 f1
          by (simp add: added_def release_lock_def priv_release_lock_def truthy_def get_lock_info_def
              blob_exists_def download_as_text_def delete_def request_def Let_def)
        then show ?thesis using assms(3) by blast
      next
        case False
        then show ?thesis
          using assms(1) h f0 f1
          by (simp add: added_def release_lock_def priv_release_lock_def truthy_def get_lock_info_def
              blob_exists_def download_as_text_def delete_def request_def Let_def)
      qed
    qed
  qed
qed

lemma holds_lease_cong:
  "lock_id s' = lock_id s \<Longrightarrow> store s' (get_lock_blob_name c) = store s (get_lock_blob_name c) \<Longrightarrow>
   holds_lease c s' = holds_lease c s"
  by (auto simp: holds_lease_def split: option.splits blob.splits jval.splits)

text \<open>
  Claim C2, as the code has it. When \<open>acquire_lock\<close> succeeds, \<open>with_session\<close> calls
  \<open>release_lock\<close> exactly once and last, whether the transform returned or raised or
  \<open>download_db\<close> raised: after the call come only the requests of the release on the
  lock file and its warning, and the process then holds no \<open>lock_id\<close>. With a bucket,
  \<open>acquire_lock\<close> has made the process the holder of the lease, and when no request of
  the release fails, the release is the three requests that look for the lock file, read
  it and delete it, and the lock file is gone from the bucket. When \<open>acquire_lock\<close>
  raises, \<open>with_session\<close> raises the same exception and does not call \<open>release_lock\<close>;
  \<open>lock_id\<close> is then what it was before the call, or \<open>None\<close>.
\<close>

theorem with_session_release:
  "(case fst (acquire_lock e c 60 s) of
      Inr b \<Rightarrow>
        (\<exists>pre post. added s (snd (with_session e c func s)) = pre @ ReleaseLock # post \<and>
           ReleaseLock \<notin> set pre \<and> list_all (lock_event c) post \<and>
           (bucket c \<and> (\<forall>a k. Req a k False \<notin> set post) \<longrightarrow>
              post = [Req Exists (get_lock_blob_name c) True,
                      Req Download (get_lock_blob_name c) True,
                      Req Delete (get_lock_blob_name c) True] \<and>
              store (snd (with_session e c func s)) (get_lock_blob_name c) = None)) \<and>
        (bucket c \<longrightarrow> holds_lease c (snd (acquire_lock e c 60 s))) \<and>
        \<not> truthy (lock_id (snd (with_session e c func s)))
    | Inl err \<Rightarrow>
        fst (with_session e c func s) = Inl err \<and>
        ReleaseLock \<notin> set (added s (snd (with_session e c func s))) \<and>
        (lock_id (snd (with_session e c func s)) = lock_id s \<or>
         lock_id (snd (with_session e c func s)) = None))"
proof (cases "fst (acquire_lock e c 60 s)")
  case (Inl err)
  obtain s1 where a: "acquire_lock e c 60 s = (Inl err, s1)"
    using Inl by (cases "acquire_lock e c 60 s") simp
  have w: "with_session e c func s = (Inl err, s1)"
    using a by (rule with_session_unlocked)
  obtain A where A: "trace s1 = trace s @ A" "list_all (lock_event c) A"
    using lock_step_acquire_lock [of c s e 60] a by (auto simp: lock_step_def)
  have "ReleaseLock \<notin> set (added s s1)"
    using A lock_events_only(4) [OF A(2)] by (simp add: added_def)
  then show ?thesis
    using Inl w acquire_lock_failed_lock_id [OF a] by auto
next
  case (Inr b)
  obtain s1 s3 A B where o: "acquire_lock e c 60 s = (Inr b, s1)"
      "snd (opened_session e c s) = s3"
      "trace s3 = trace s @ A @ B" "list_all (lock_event c) A" "list_all (fetch_event c) B"
      "\<forall>k. k \<noteq> get_lock_blob_name c \<longrightarrow> store s3 k = store s k"
      "store s3 (get_lock_blob_name c) = store s1 (get_lock_blob_name c)"
      "lock_id s3 = lock_id s1"
    by (rule session_opened [OF Inr])
  have "\<exists>sx pre. snd (with_session e c func s) = release_lock e c sx \<and>
      trace sx = trace s @ pre @ [ReleaseLock] \<and> ReleaseLock \<notin> set pre \<and>
      lock_id sx = lock_id s1 \<and>
      store sx (get_lock_blob_name c) = store s1 (get_lock_blob_name c)"
  proof (cases "fst (opened_session e c s)")
    case (Inl err)
    have os: "opened_session e c s = (Inl err, s3)"
      using Inl o(2) by (cases "opened_session e c s") simp
    define sx where "sx = s3\<lparr>trace := trace s3 @ [ReleaseLock]\<rparr>"
    have w: "with_session e c func s = (Inl err, release_lock e c sx)"
      unfolding sx_def using o(1) os by (rule with_session_not_opened)
    let ?pre = "A @ B"
    have p: "trace sx = trace s @ ?pre @ [ReleaseLock]"
      using o(3) by (simp add: sx_def)
    have q: "ReleaseLock \<notin> set ?pre"
      using lock_events_only(4) [OF o(4)] fetch_events_only(4) [OF o(5)] by simp
    have r: "snd (with_session e c func s) = release_lock e c sx"
      using w by simp
    have l: "lock_id sx = lock_id s1"
      "store sx (get_lock_blob_name c) = store s1 (get_lock_blob_name c)"
      using o(7,8) by (simp_all add: sx_def)
    show ?thesis
      by (rule exI [of _ sx], rule exI [of _ ?pre]) (intro conjI r p q l)
  next
    case (Inr sess)
    have os: "opened_session e c s = (Inr sess, s3)"
      using Inr o(2) by (cases "opened_session e c s") simp
    obtain out sess1 where f: "func sess = (out, sess1)" by (cases "func sess")
    show ?thesis
    proof (cases out)
      case (Inl x)
      define sx where "sx = s3\<lparr>localfile := committed sess1,
          trace := trace s3 @ [Rollback, Print (OperationError x), Close, ReleaseLock]\<rparr>"
      have w: "with_session e c func s = (Inl (Raised x), release_lock e c sx)"
        unfolding sx_def using o(1) os f [unfolded Inl] by (rule with_session_raises)
      let ?pre = "A @ B @ [Rollback, Print (OperationError x), Close]"
      have p: "trace sx = trace s @ ?pre @ [ReleaseLock]"
        using o(3) by (simp add: sx_def)
      have q: "ReleaseLock \<notin> set ?pre"
        using lock_events_only(4) [OF o(4)] fetch_events_only(4) [OF o(5)] by simp
      have r: "snd (with_session e c func s) = release_lock e c sx"
        using w by simp
      have l: "lock_id sx = lock_id s1"
        "store sx (get_lock_blob_name c) = store s1 (get_lock_blob_name c)"
        using o(7,8) by (simp_all add: sx_def)
      show ?thesis
        by (rule exI [of _ sx], rule exI [of _ ?pre]) (intro conjI r p q l)
    next
      case (Inr r)
      define sc where "sc = s3\<lparr>localfile := working sess1, trace := trace s3 @ [Commit]\<rparr>"
      define u where "u = upload_db e c sc"
      define sx where "sx = u\<lparr>trace := trace u @ [Close, ReleaseLock]\<rparr>"
      have w: "with_session e c func s = (Inr r, release_lock e c sx)"
        unfolding sx_def using o(1) os f [unfolded Inr] u_def [unfolded sc_def]
        by (rule with_session_returns)
      obtain U where U: "trace u = trace sc @ U" "lock_id u = lock_id sc"
        "store u (get_lock_blob_name c) = store sc (get_lock_blob_name c)"
        "U = [Print UploadSkipped] \<and> \<not> bucket c \<and> store u = store sc \<or>
          U = [Print UploadError] \<and> store u = store sc \<or>
          U = [Req Upload (db_filename c) False, Print UploadError] \<and> store u = store sc \<or>
          (\<exists>s1. U = [Req Upload (db_filename c) True, Req Upload (backup_name e c s1) False,
                       Print UploadError]) \<and>
            store u (db_filename c) = localfile sc \<or>
          (\<exists>s1. U = [Req Upload (db_filename c) True, Req Upload (backup_name e c s1) True]) \<and>
            store u (db_filename c) = localfile sc"
        using upload_db_cases [of e c sc] unfolding u_def by blast
      let ?pre = "A @ B @ [Commit] @ U @ [Close]"
      have p: "trace sx = trace s @ ?pre @ [ReleaseLock]"
        using o(3) U(1) by (simp add: sx_def sc_def)
      have "ReleaseLock \<notin> set U"
        using U(4) by (elim disjE conjE exE) simp_all
      then have q: "ReleaseLock \<notin> set ?pre"
        using lock_events_only(4) [OF o(4)] fetch_events_only(4) [OF o(5)] by simp
      have r: "snd (with_session e c func s) = release_lock e c sx"
        using w by simp
      have l: "lock_id sx = lock_id s1"
        "store sx (get_lock_blob_name c) = store s1 (get_lock_blob_name c)"
        using o(7,8) U(2,3) by (simp_all add: sx_def sc_def)
      show ?thesis
        by (rule exI [of _ sx], rule exI [of _ ?pre]) (intro conjI r p q l)
    qed
  qed
  then obtain sx pre where sx: "snd (with_session e c func s) = release_lock e c sx"
      "trace sx = trace s @ pre @ [ReleaseLock]" "ReleaseLock \<notin> set pre"
      "lock_id sx = lock_id s1"
      "store sx (get_lock_blob_name c) = store s1 (get_lock_blob_name c)"
    by blast
  obtain D where D: "trace (release_lock e c sx) = trace sx @ D" "list_all (lock_event c) D"
    using release_lock_step [of e c sx] by blast
  have ad: "added sx (release_lock e c sx) = D"
    using D(1) by (simp add: added_def)
  have h1: "bucket c \<longrightarrow> holds_lease c s1"
    using acquire_lock_holds [of c e 60 s b s1] o(1) by simp
  have h: "bucket c \<longrightarrow> holds_lease c sx"
    using h1 holds_lease_cong [OF sx(4,5)] by simp
  have rel: "bucket c \<and> (\<forall>a k. Req a k False \<notin> set D) \<longrightarrow>
      D = [Req Exists (get_lock_blob_name c) True, Req Download (get_lock_blob_name c) True,
           Req Delete (get_lock_blob_name c) True] \<and>
      store (release_lock e c sx) (get_lock_blob_name c) = None"
    using release_lock_holder [of c sx e] h unfolding ad by blast
  have a: "added s (snd (with_session e c func s)) = pre @ ReleaseLock # D"
    using sx(1,2) D(1) by (simp add: added_def)
  have 1: "\<exists>pre post. added s (snd (with_session e c func s)) = pre @ ReleaseLock # post \<and>
           ReleaseLock \<notin> set pre \<and> list_all (lock_event c) post \<and>
           (bucket c \<and> (\<forall>a k. Req a k False \<notin> set post) \<longrightarrow>
              post = [Req Exists (get_lock_blob_name c) True,
                      Req Download (get_lock_blob_name c) True,
                      Req Delete (get_lock_blob_name c) True] \<and>
              store (snd (with_session e c func s)) (get_lock_blob_name c) = None)"
    by (rule exI [of _ pre], rule exI [of _ D]) (intro conjI a sx(3) D(2) rel [unfolded sx(1) [symmetric]])
  have 2: "bucket c \<longrightarrow> holds_lease c (snd (acquire_lock e c 60 s))"
    using h1 o(1) by simp
  have 3: "\<not> truthy (lock_id (snd (with_session e c func s)))"
    using sx(1) release_lock_clears [of e c sx] by simp
  show ?thesis using Inr 1 2 3 by simp
qed

text \<open>The events that follow the call of \<open>release_lock\<close> in a trace are determined.\<close>

lemma after_release:
  assumes "xs = pre @ ReleaseLock # post" and "ReleaseLock \<notin> set pre"
  shows "post = tl (dropWhile (\<lambda>ev. ev \<noteq> ReleaseLock) xs)"
proof -
  have "dropWhile (\<lambda>ev. ev \<noteq> ReleaseLock) pre = []"
    using assms(2) by (auto simp: dropWhile_eq_Nil_conv)
  then show ?thesis
    using assms(1) by (simp add: dropWhile_append3)
qed

theorem with_session_release_witness:
  "fst (acquire_lock (ex_env []) ex_config 60 ex_bucket) = Inr True \<and> bucket ex_config \<and>
   (\<exists>pre. added ex_bucket (snd (with_session (ex_env []) ex_config ex_raise ex_bucket)) =
        pre @ [ReleaseLock, Req Exists ex_lock True, Req Download ex_lock True,
               Req Delete ex_lock True] \<and>
      ReleaseLock \<notin> set pre) \<and>
   holds_lease ex_config (snd (acquire_lock (ex_env []) ex_config 60 ex_bucket)) \<and>
   store (snd (with_session (ex_env []) ex_config ex_raise ex_bucket)) ex_lock = None \<and>
   \<not> truthy (lock_id (snd (with_session (ex_env []) ex_config ex_raise ex_bucket))) \<and>
   fst (acquire_lock (ex_env []) ex_config 60 ex_held) =
     Inl (DatabaseLockException (AttemptsExceeded 6 (JStr ''other-1-ffff0000-20231231235959''))) \<and>
   fst (with_session (ex_env []) ex_config ex_raise ex_held) =
     Inl (DatabaseLockException (AttemptsExceeded 6 (JStr ''other-1-ffff0000-20231231235959''))) \<and>
   ReleaseLock \<notin> set (added ex_held (snd (with_session (ex_env []) ex_config ex_raise ex_held))) \<and>
   lock_id (snd (with_session (ex_env []) ex_config ex_raise ex_held)) = None"
proof -
  let ?xs = "added ex_bucket (snd (with_session (ex_env []) ex_config ex_raise ex_bucket))"
  have h: "fst (acquire_lock (ex_env []) ex_config 60 ex_bucket) = Inr True"
    by code_simp
  have g: "fst (acquire_lock (ex_env []) ex_config 60 ex_held) =
     Inl (DatabaseLockException (AttemptsExceeded 6 (JStr ''other-1-ffff0000-20231231235959'')))"
    by code_simp
  have bk: "bucket ex_config" by (simp add: ex_config_def)
  have n: "lock_id ex_held = None"
    by (simp add: ex_held_def ex_state_def)
  have k: "get_lock_blob_name ex_config = ex_lock"
    by (simp add: get_lock_blob_name_def ex_config_def ex_lock_def)
  have t: "tl (dropWhile (\<lambda>ev. ev \<noteq> ReleaseLock) ?xs) =
      [Req Exists ex_lock True, Req Download ex_lock True, Req Delete ex_lock True]"
    by code_simp
  note a = with_session_release [where e = "ex_env []" and c = ex_config and s = ex_bucket
      and func = ex_raise, unfolded h, simplified]
  note b = with_session_release [where e = "ex_env []" and c = ex_config and s = ex_held
      and func = ex_raise, unfolded g n, simplified]
  obtain pre post where pp: "?xs = pre @ ReleaseLock # post" "ReleaseLock \<notin> set pre"
      "bucket ex_config \<and> (\<forall>a k. Req a k False \<notin> set post) \<longrightarrow>
         post = [Req Exists (get_lock_blob_name ex_config) True,
                 Req Download (get_lock_blob_name ex_config) True,
                 Req Delete (get_lock_blob_name ex_config) True] \<and>
         store (snd (with_session (ex_env []) ex_config ex_raise ex_bucket))
           (get_lock_blob_name ex_config) = None"
    using a by blast
  have post: "post = [Req Exists ex_lock True, Req Download ex_lock True, Req Delete ex_lock True]"
    using after_release [OF pp(1,2)] t by simp
  have nf: "\<forall>a k. Req a k False \<notin> set post"
    by (simp add: post)
  have 1: "store (snd (with_session (ex_env []) ex_config ex_raise ex_bucket)) ex_lock = None"
    using pp(3) bk nf by (simp add: k)
  have 2: "\<exists>pre. ?xs = pre @ [ReleaseLock, Req Exists ex_lock True, Req Download ex_lock True,
               Req Delete ex_lock True] \<and> ReleaseLock \<notin> set pre"
    using pp(1,2) post by auto
  show ?thesis
    using h g bk a b 1 2 by simp
qed

text \<open>
  Claim C2 as it is stated fails, in two ways. A process takes the lock with
  \<open>acquire_lock\<close> (as \<open>DatabaseLock.__enter__\<close> does) and then calls \<open>with_session\<close>:
  the call waits for the lease of its own process, raises after six attempts, never
  calls \<open>release_lock\<close>, and leaves the process holding the lease. And in a call that
  acquires the lock and whose transform returns, the request that deletes the lock file
  fails: \<open>with_session\<close> returns the result, the process has no \<open>lock_id\<close>, and its
  lease stays in the bucket.
\<close>

theorem with_session_keeps_lease_counterexample:
  "lock_id ex_state = None \<and>
   fst (acquire_lock (ex_env []) ex_config 60 ex_state) = Inr True \<and>
   fst (with_session (ex_env []) ex_config ex_add_row
         (snd (acquire_lock (ex_env []) ex_config 60 ex_state))) =
     Inl (DatabaseLockException (AttemptsExceeded 6 (JStr ex_id))) \<and>
   lock_id (snd (with_session (ex_env []) ex_config ex_add_row
         (snd (acquire_lock (ex_env []) ex_config 60 ex_state)))) = Some ex_id \<and>
   holds_lease ex_config (snd (with_session (ex_env []) ex_config ex_add_row
         (snd (acquire_lock (ex_env []) ex_config 60 ex_state)))) \<and>
   ReleaseLock \<notin> set (trace (snd (with_session (ex_env []) ex_config ex_add_row
         (snd (acquire_lock (ex_env []) ex_config 60 ex_state))))) \<and>
   fst (with_session (ex_env [10]) ex_config ex_add_row ex_bucket) = Inr 1 \<and>
   trace (snd (with_session (ex_env [10]) ex_config ex_add_row ex_bucket)) =
     [Req Exists ex_lock True, Req Upload ex_lock True,
      Req Exists ''lifegoal.db'' True, Req Download ''lifegoal.db'' True,
      Req Exists ''lifegoal.db'' True, Req Download ''lifegoal.db'' True,
      Commit,
      Req Upload ''lifegoal.db'' True, Req Upload ''backups/lifegoal.db.20240101000000'' True,
      Close, ReleaseLock,
      Req Exists ex_lock True, Req Download ex_lock True, Req Delete ex_lock False] \<and>
   lock_id (snd (with_session (ex_env [10]) ex_config ex_add_row ex_bucket)) = None \<and>
   store (snd (with_session (ex_env [10]) ex_config ex_add_row ex_bucket)) ex_lock =
     Some (Json (JObj [(''lock_id'', JStr ex_id), (''timestamp'', JTime 0),
                       (''hostname'', JStr ''h''), (''pid'', JNum 7)]))"
  by code_simp

end
